(* ===== verification/Mobile_Prelude.thy ===== *)
theory Mobile_Prelude
  imports Main "HOL-Library.Word" "HOL-Library.State_Monad"
begin

unbundle bit_operations_syntax

text \<open>
  Shared vocabulary of the development: machine integers, C strings, the outcome
  type of a C function that may fail an assertion or run into undefined behaviour,
  state-passing combinators on top of the library's state monad together with a small
  calculus for invariants of stateful code, and the generic lemmas on words,
  lists and bytes that the components share.
\<close>

section \<open>Machine integers and C values\<close>

type_synonym byte = "8 word"
type_synonym u16 = "16 word"
type_synonym u32 = "32 word"

text \<open>
  \<open>Abort\<close> is where C gives no further guarantee: a failed \<open>assert\<close>, an access that the
  standard leaves undefined (a null pointer, an index outside an array), a conversion of
  a floating-point value that the integer type cannot hold, or the use of a string the
  library has left unspecified.
\<close>

datatype fault = Assertion_failed | Null_dereference | Out_of_bounds | Bad_conversion | Uninitialised | Unspecified

datatype 'a cres = Ret 'a | Abort fault

fun returns :: "'a cres \<Rightarrow> bool" where
  "returns (Ret _) = True"
| "returns (Abort _) = False"

lemma returns_iff: "returns r \<longleftrightarrow> (\<exists>x. r = Ret x)"
  by (cases r) simp_all

text \<open>The conversion of a wide signed value to C's 32-bit \<open>int\<close> (two's complement).\<close>

definition c_int :: "int \<Rightarrow> int" where
  "c_int n = sint (word_of_int n :: 32 word)"

lemma c_int_id: "- (2 ^ 31) \<le> n \<Longrightarrow> n < 2 ^ 31 \<Longrightarrow> c_int n = n"
  by (simp add: c_int_def sint_sbintrunc' signed_take_bit_int_eq_self)

text \<open>Decimal digits, as \<open>printf\<close> writes them for \<open>%u\<close>.\<close>

fun show_nat :: "nat \<Rightarrow> string" where
  "show_nat n =
     (if n < 10 then [char_of (48 + n)]
      else show_nat (n div 10) @ [char_of (48 + n mod 10)])"

declare show_nat.simps [simp del]

lemma length_show_nat: "0 < k \<Longrightarrow> n < 10 ^ k \<Longrightarrow> length (show_nat n) \<le> k"
proof (induction k arbitrary: n)
  case 0
  then show ?case by simp
next
  case (Suc k)
  show ?case
  proof (cases "n < 10")
    case True
    then show ?thesis by (subst show_nat.simps) simp
  next
    case False
    with Suc.prems have "k \<noteq> 0" by (intro notI) simp
    moreover from Suc.prems have "n div 10 < 10 ^ k"
      by (simp add: less_mult_imp_div_less mult.commute)
    ultimately have "length (show_nat (n div 10)) \<le> k"
      using Suc.IH by simp
    with False show ?thesis by (subst show_nat.simps) simp
  qed
qed

text \<open>A C string ends at its first terminator.\<close>

abbreviation newline :: string where
  "newline \<equiv> [CHR 0x0A]"

definition cstr :: "string \<Rightarrow> string" where
  "cstr = takeWhile (\<lambda>c. c \<noteq> CHR 0x00)"

lemma cstr_id: "CHR 0x00 \<notin> set s \<Longrightarrow> cstr s = s"
  by (auto simp: cstr_def takeWhile_eq_all_conv)

section \<open>Stateful code\<close>

definition gets :: "('s \<Rightarrow> 'a) \<Rightarrow> ('s, 'a) state" where
  "gets f = State (\<lambda>s. (f s, s))"

definition modify :: "('s \<Rightarrow> 's) \<Rightarrow> ('s, unit) state" where
  "modify f = State (\<lambda>s. ((), f s))"

definition when_st :: "bool \<Rightarrow> ('s, unit) state \<Rightarrow> ('s, unit) state" where
  "when_st b m = (if b then m else State_Monad.return ())"

abbreviation ret_ok :: "'a \<Rightarrow> ('s, 'a cres) state" where
  "ret_ok x \<equiv> State_Monad.return (Ret x)"

abbreviation abort :: "fault \<Rightarrow> ('s, 'a cres) state" where
  "abort f \<equiv> State_Monad.return (Abort f)"

text \<open>Sequencing of calls that may end the process.\<close>

definition andthen :: "('s, 'a cres) state \<Rightarrow> ('a \<Rightarrow> ('s, 'b cres) state) \<Rightarrow> ('s, 'b cres) state" where
  "andthen m f = do { r \<leftarrow> m; (case r of Ret x \<Rightarrow> f x | Abort e \<Rightarrow> abort e) }"

lemma run_gets [simp]: "run_state (gets f) s = (f s, s)"
  by (simp add: gets_def)

lemma run_modify [simp]: "run_state (modify f) s = ((), f s)"
  by (simp add: modify_def)

lemma run_when_st [simp]: "run_state (when_st b m) s = (if b then run_state m s else ((), s))"
  by (simp add: when_st_def)

lemma run_if [simp]:
  "run_state (if b then m else n) s = (if b then run_state m s else run_state n s)"
  by simp

lemma run_andthen:
  "run_state (andthen m f) s =
     (case run_state m s of
        (Ret x, s') \<Rightarrow> run_state (f x) s'
      | (Abort e, s') \<Rightarrow> (Abort e, s'))"
  by (auto simp: andthen_def split: prod.splits cres.splits)

text \<open>The final state and the result of a run, for statements about one of them.\<close>

definition exec :: "('s, 'a) state \<Rightarrow> 's \<Rightarrow> 's" where
  "exec m s = snd (run_state m s)"

definition result :: "('s, 'a) state \<Rightarrow> 's \<Rightarrow> 'a" where
  "result m s = fst (run_state m s)"

lemma run_state_pair: "run_state m s = (result m s, exec m s)"
  by (simp add: result_def exec_def)

subsection \<open>A calculus of pre- and postconditions\<close>

text \<open>
  \<open>triple P m Q\<close>: from every state with \<open>P\<close>, the run of \<open>m\<close> ends with a result and a
  state related by \<open>Q\<close>. Runs of the state monad always end, so this is total
  correctness. \<open>keeps P m\<close> says that \<open>P\<close> is an invariant of \<open>m\<close>.
\<close>

definition triple :: "('s \<Rightarrow> bool) \<Rightarrow> ('s, 'a) state \<Rightarrow> ('a \<Rightarrow> 's \<Rightarrow> bool) \<Rightarrow> bool" where
  "triple P m Q \<longleftrightarrow> (\<forall>s. P s \<longrightarrow> (case run_state m s of (a, s') \<Rightarrow> Q a s'))"

definition keeps :: "('s \<Rightarrow> bool) \<Rightarrow> ('s, 'a) state \<Rightarrow> bool" where
  "keeps P m \<longleftrightarrow> triple P m (\<lambda>_. P)"

named_theorems triple_intros
named_theorems keeps_intros

lemma tripleI: "(\<And>s a s'. P s \<Longrightarrow> run_state m s = (a, s') \<Longrightarrow> Q a s') \<Longrightarrow> triple P m Q"
  by (auto simp: triple_def)

lemma tripleD: "triple P m Q \<Longrightarrow> P s \<Longrightarrow> run_state m s = (a, s') \<Longrightarrow> Q a s'"
  by (auto simp: triple_def)

lemma triple_return [triple_intros]: "(\<And>s. P s \<Longrightarrow> Q a s) \<Longrightarrow> triple P (State_Monad.return a) Q"
  by (simp add: triple_def)

lemma triple_bind [triple_intros]:
  "triple P m R \<Longrightarrow> (\<And>a. triple (R a) (f a) Q) \<Longrightarrow> triple P (State_Monad.bind m f) Q"
  by (fastforce simp: triple_def split: prod.splits)

lemma triple_andthen [triple_intros]:
  assumes "triple P m R" and "\<And>x. triple (R (Ret x)) (f x) Q"
    and "\<And>e s. R (Abort e) s \<Longrightarrow> Q (Abort e) s"
  shows "triple P (andthen m f) Q"
  unfolding andthen_def
  by (rule triple_bind [OF assms(1)])
    (auto intro: assms triple_return split: cres.split)

lemma triple_if [triple_intros]:
  "(b \<Longrightarrow> triple P m Q) \<Longrightarrow> (\<not> b \<Longrightarrow> triple P n Q) \<Longrightarrow> triple P (if b then m else n) Q"
  by simp

lemma triple_conseq:
  "triple P m Q \<Longrightarrow> (\<And>s. P' s \<Longrightarrow> P s) \<Longrightarrow> (\<And>a s. Q a s \<Longrightarrow> Q' a s) \<Longrightarrow> triple P' m Q'"
  by (fastforce simp: triple_def split: prod.splits)

lemma keepsI: "(\<And>s a s'. P s \<Longrightarrow> run_state m s = (a, s') \<Longrightarrow> P s') \<Longrightarrow> keeps P m"
  by (auto simp: keeps_def triple_def)

lemma keepsD: "keeps P m \<Longrightarrow> P s \<Longrightarrow> P (snd (run_state m s))"
  by (cases "run_state m s") (auto simp: keeps_def triple_def)

lemma keeps_execD: "keeps P m \<Longrightarrow> P s \<Longrightarrow> P (exec m s)"
  by (simp add: exec_def keepsD)

lemma keeps_return [keeps_intros]: "keeps P (State_Monad.return a)"
  by (simp add: keeps_def triple_def)

lemma keeps_gets [keeps_intros]: "keeps P (gets f)"
  by (simp add: keeps_def triple_def)

lemma keeps_modify [keeps_intros]: "(\<And>s. P s \<Longrightarrow> P (f s)) \<Longrightarrow> keeps P (modify f)"
  by (simp add: keeps_def triple_def)

lemma keeps_bind [keeps_intros]:
  "keeps P m \<Longrightarrow> (\<And>a. keeps P (f a)) \<Longrightarrow> keeps P (State_Monad.bind m f)"
  unfolding keeps_def by (rule triple_bind)

lemma keeps_andthen [keeps_intros]:
  "keeps P m \<Longrightarrow> (\<And>x. keeps P (f x)) \<Longrightarrow> keeps P (andthen m f)"
  unfolding keeps_def by (rule triple_andthen)

lemma keeps_if [keeps_intros]:
  "(b \<Longrightarrow> keeps P m) \<Longrightarrow> (\<not> b \<Longrightarrow> keeps P n) \<Longrightarrow> keeps P (if b then m else n)"
  by simp

lemma keeps_when_st [keeps_intros]: "(b \<Longrightarrow> keeps P m) \<Longrightarrow> keeps P (when_st b m)"
  by (simp add: when_st_def keeps_return)

lemma keeps_let [keeps_intros]: "(\<And>x. keeps P (f x)) \<Longrightarrow> keeps P (let x = t in f x)"
  by (simp add: Let_def)

lemma keeps_case_option [keeps_intros]:
  "keeps P m \<Longrightarrow> (\<And>x. keeps P (f x)) \<Longrightarrow> keeps P (case v of None \<Rightarrow> m | Some x \<Rightarrow> f x)"
  by (simp split: option.split)

lemma keeps_case_prod [keeps_intros]:
  "(\<And>x y. keeps P (f x y)) \<Longrightarrow> keeps P (case p of (x, y) \<Rightarrow> f x y)"
  by (simp split: prod.split)

lemma keeps_case_cres [keeps_intros]:
  "(\<And>x. keeps P (f x)) \<Longrightarrow> (\<And>e. keeps P (g e)) \<Longrightarrow>
   keeps P (case r of Ret x \<Rightarrow> f x | Abort e \<Rightarrow> g e)"
  by (simp split: cres.split)

section \<open>Words, bytes and lists\<close>

text \<open>Byte order: \<open>htons\<close> and \<open>ntohs\<close> on a little-endian host exchange the two bytes.\<close>

definition htons :: "u16 \<Rightarrow> u16" where
  "htons x = push_bit 8 x OR drop_bit 8 x"

definition ntohs :: "u16 \<Rightarrow> u16" where
  "ntohs x = push_bit 8 x OR drop_bit 8 x"

lemma bit_htons: "bit (htons x) n \<longleftrightarrow> n < 16 \<and> bit x (if n < 8 then n + 8 else n - 8)"
  by (auto simp: htons_def bit_or_iff bit_push_bit_iff bit_drop_bit_eq add.commute
      dest: bit_imp_le_length)

lemma ntohs_htons [simp]: "ntohs (htons x) = x"
proof (rule bit_eqI)
  fix n
  have "ntohs = htons" by (simp add: fun_eq_iff ntohs_def htons_def)
  then show "bit (ntohs (htons x)) n = bit x n"
    by (auto simp: bit_htons dest: bit_imp_le_length)
qed

lemma htons_ntohs [simp]: "htons (ntohs x) = x"
  using ntohs_htons by (simp add: ntohs_def htons_def)

text \<open>The four bytes of a 32-bit value in memory, least significant first.\<close>

definition le_bytes :: "u32 \<Rightarrow> byte list" where
  "le_bytes x = [ucast x, ucast (drop_bit 8 x), ucast (drop_bit 16 x), ucast (drop_bit 24 x)]"

definition le_word :: "byte \<Rightarrow> byte \<Rightarrow> byte \<Rightarrow> byte \<Rightarrow> u32" where
  "le_word a b c d =
     ucast a OR push_bit 8 (ucast b) OR push_bit 16 (ucast c) OR push_bit 24 (ucast d)"

lemma length_le_bytes [simp]: "length (le_bytes x) = 4"
  by (simp add: le_bytes_def)

lemma bit_le_word:
  "bit (le_word a b c d) n \<longleftrightarrow>
     (if n < 8 then bit a n else if n < 16 then bit b (n - 8)
      else if n < 24 then bit c (n - 16) else n < 32 \<and> bit d (n - 24))"
  by (auto simp: le_word_def bit_or_iff bit_push_bit_iff bit_ucast_iff dest: bit_imp_le_length)

lemma le_word_le_bytes:
  "le_word (ucast x) (ucast (drop_bit 8 x)) (ucast (drop_bit 16 x)) (ucast (drop_bit 24 x)) = x"
proof (rule bit_eqI)
  fix n
  show "bit (le_word (ucast x) (ucast (drop_bit 8 x)) (ucast (drop_bit 16 x))
      (ucast (drop_bit 24 x))) n = bit x n"
    by (auto simp: bit_le_word bit_ucast_iff bit_drop_bit_eq dest: bit_imp_le_length)
qed

lemma le_bytes_le_word: "le_bytes (le_word a b c d) = [a, b, c, d]"
  by (auto simp: le_bytes_def bit_le_word bit_ucast_iff bit_drop_bit_eq
      intro!: bit_eqI dest: bit_imp_le_length)

text \<open>Masking with \<open>0x7FFFFFFF\<close> is reduction modulo \<open>2 ^ 31\<close>.\<close>

lemma mask31_unat: "unat (x AND 0x7FFFFFFF :: u32) = unat x mod 2 ^ 31"
proof -
  have "(0x7FFFFFFF :: u32) = mask 31" by (simp add: mask_eq_exp_minus_1)
  then have "x AND 0x7FFFFFFF = take_bit 31 x" by (simp add: take_bit_eq_mask)
  then show ?thesis by (simp add: take_bit_eq_mod unat_mod)
qed

lemma unat_diff_mod: "unat (x - y :: u32) mod 2 ^ 31 = (2 ^ 32 + unat x - unat y) mod 2 ^ 31"
proof -
  have "unat (x - y) = (2 ^ 32 + unat x - unat y) mod 2 ^ 32"
    using unsigned_less [of x, where ?'a = nat] unsigned_less [of y, where ?'a = nat]
    by (auto simp: unat_sub_if' mod_if)
  then show ?thesis by (simp add: mod_mod_cancel)
qed

section \<open>Encodings\<close>

text \<open>
  A format for values on the wire: on the values that can be sent, decoding undoes
  encoding, and whatever decodes is the encoding of its value.
\<close>

locale wire_format =
  fixes sendable :: "'a \<Rightarrow> bool" and enc :: "'a \<Rightarrow> 'b" and dec :: "'b \<Rightarrow> 'a option"
  assumes dec_enc: "sendable x \<Longrightarrow> dec (enc x) = Some x"
    and enc_dec: "dec y = Some x \<Longrightarrow> sendable x \<and> enc x = y"
begin

lemma enc_inj: "sendable x \<Longrightarrow> sendable y \<Longrightarrow> enc x = enc y \<longleftrightarrow> x = y"
  by (metis dec_enc option.inject)

lemma dec_inj: "dec y = Some x \<Longrightarrow> dec z = Some x \<Longrightarrow> y = z"
  using enc_dec by blast

lemma dec_range: "(\<exists>x. dec y = Some x) \<longleftrightarrow> y \<in> enc ` Collect sendable"
  using dec_enc enc_dec by fastforce

end

end
