(* ===== verification/Os_Env.thy ===== *)
theory Os_Env
  imports Mobile_Prelude
begin

text \<open>
  The operating system as the program sees it. Sockets, polling and name resolution are
  services outside the repository, so what they answer is a parameter: an
  \<open>os_env\<close> gives, for the history of system calls made so far and the next call, the
  values that call returns. The program's own memory is an extensible record; its root
  \<open>os\<close> holds the history of calls (latest first), \<open>errno\<close> and what was written to the
  standard error stream, and each component extends it by its own fields.

  The descriptors the process holds open are a function of the history (\<open>live\<close>), and
  \<open>trace_ok\<close> says that every call so far named open descriptors only: no use of a closed
  or of an invalid descriptor, no double close.
\<close>

section \<open>System calls and their results\<close>

datatype af = AF_INET | AF_INET6 | AF_OTHER int

datatype socktype = SOCK_STREAM | SOCK_DGRAM | SOCK_OTHER int

datatype sockopt = SO_REUSEADDR | TCP_NODELAY | SO_ERROR | SO_TYPE

datatype pollev = POLLIN | POLLPRI | POLLOUT

text \<open>
  Socket addresses with the port in network byte order, as the structs hold it. The
  third constructor is an address of any other family.
\<close>

datatype sockaddr =
    Sockaddr_in u16 "byte list"
  | Sockaddr_in6 u16 "byte list"
  | Sockaddr_other

record addrinfo =
  ai_family :: af
  ai_socktype :: socktype
  ai_protocol :: int
  ai_addr :: sockaddr

datatype syscall =
    Sys_socket af socktype int
  | Sys_close int
  | Sys_connect int "sockaddr option" "nat option"
  | Sys_bind int sockaddr
  | Sys_listen int int
  | Sys_accept int
  | Sys_send int "byte list"
  | Sys_recv int nat
  | Sys_sendto int "byte list" "sockaddr option" "nat option"
  | Sys_recvfrom int nat bool
  | Sys_poll "(int \<times> pollev list) list" int
  | Sys_setsockopt int sockopt int
  | Sys_getsockopt int sockopt
  | Sys_fcntl_getfl int
  | Sys_fcntl_setfl int u32
  | Sys_getaddrinfo string string af socktype int
  | Sys_sigaction
  | Sys_signal_flag

text \<open>
  Everything a call may hand back: the return value, the error number it leaves when it
  fails, received bytes, the peer's address (\<open>None\<close> when the call stores an address
  length of zero), the value of an option, and the list of a name resolution.
\<close>

record sysret =
  ret :: int
  err :: int
  rdata :: "byte list"
  raddr :: "sockaddr option"
  rval :: int
  rtype :: socktype
  rinfo :: "addrinfo list"

definition ok_ret :: sysret where
  "ok_ret = \<lparr>ret = 0, err = 0, rdata = [], raddr = None, rval = 0, rtype = SOCK_STREAM, rinfo = []\<rparr>"

type_synonym trace = "(syscall \<times> sysret) list"

record os_env =
  reply :: "trace \<Rightarrow> syscall \<Rightarrow> sysret"
  strerror_r :: "int \<Rightarrow> string option"
  strerror :: "int \<Rightarrow> string"
  gai_strerror :: "int \<Rightarrow> string"
  inet_ntop :: "sockaddr \<Rightarrow> string"

record os =
  trace :: trace
  errno :: int
  stderr :: string

text \<open>The constants of the POSIX interface, with their Linux values.\<close>

abbreviation INVALID_SOCKET :: int where "INVALID_SOCKET \<equiv> - 1"
abbreviation SOCKET_ERROR :: int where "SOCKET_ERROR \<equiv> - 1"
abbreviation SOCKET_EWOULDBLOCK :: int where "SOCKET_EWOULDBLOCK \<equiv> 11"
abbreviation SOCKET_EINPROGRESS :: int where "SOCKET_EINPROGRESS \<equiv> 115"
abbreviation SOCKET_EALREADY :: int where "SOCKET_EALREADY \<equiv> 114"
abbreviation SOCKET_EISCONN :: int where "SOCKET_EISCONN \<equiv> 106"
abbreviation EPIPE :: int where "EPIPE \<equiv> 32"
abbreviation IPPROTO_TCP :: int where "IPPROTO_TCP \<equiv> 6"
abbreviation AF_UNSPEC :: af where "AF_UNSPEC \<equiv> AF_OTHER 0"
abbreviation O_NONBLOCK :: u32 where "O_NONBLOCK \<equiv> 0x800"

section \<open>Making a call\<close>

text \<open>
  A call is answered by the environment and recorded. A failing call sets \<open>errno\<close>; the
  program reads \<open>errno\<close> after failures only.
\<close>

definition logged :: "os_env \<Rightarrow> syscall \<Rightarrow> 'a os_scheme \<Rightarrow> 'a os_scheme" where
  "logged E c s =
     (let r = reply E (trace s) c
      in s\<lparr>trace := (c, r) # trace s, errno := (if ret r < 0 then err r else errno s)\<rparr>)"

definition sys :: "os_env \<Rightarrow> syscall \<Rightarrow> ('a os_scheme, sysret) state" where
  "sys E c = State (\<lambda>s. (reply E (trace s) c, logged E c s))"

definition eprint :: "string \<Rightarrow> ('a os_scheme, unit) state" where
  "eprint t = modify (\<lambda>s. s\<lparr>stderr := stderr s @ t\<rparr>)"

definition socket_seterror :: "int \<Rightarrow> ('a os_scheme, unit) state" where
  "socket_seterror e = modify (\<lambda>s. s\<lparr>errno := e\<rparr>)"

definition socket_geterror :: "('a os_scheme, int) state" where
  "socket_geterror = gets errno"

lemma run_sys [simp]: "run_state (sys E c) s = (reply E (trace s) c, logged E c s)"
  by (simp add: sys_def)

lemma trace_logged [simp]: "trace (logged E c s) = (c, reply E (trace s) c) # trace s"
  by (simp add: logged_def Let_def)

lemma stderr_logged [simp]: "stderr (logged E c s) = stderr s"
  by (simp add: logged_def Let_def)

lemma errno_logged:
  "errno (logged E c s) = (if ret (reply E (trace s) c) < 0 then err (reply E (trace s) c) else errno s)"
  by (simp add: logged_def Let_def)

lemma more_logged [simp]: "os.more (logged E c s) = os.more s"
  by (simp add: logged_def Let_def)

lemma run_eprint [simp]: "run_state (eprint t) s = ((), s\<lparr>stderr := stderr s @ t\<rparr>)"
  by (simp add: eprint_def)

lemma run_seterror [simp]: "run_state (socket_seterror e) s = ((), s\<lparr>errno := e\<rparr>)"
  by (simp add: socket_seterror_def)

lemma run_geterror [simp]: "run_state socket_geterror s = (errno s, s)"
  by (simp add: socket_geterror_def)

section \<open>The descriptors a history leaves open\<close>

fun creates :: "syscall \<Rightarrow> bool" where
  "creates (Sys_socket _ _ _) = True"
| "creates (Sys_accept _) = True"
| "creates _ = False"

fun sys_fds :: "syscall \<Rightarrow> int list" where
  "sys_fds (Sys_close fd) = [fd]"
| "sys_fds (Sys_connect fd _ _) = [fd]"
| "sys_fds (Sys_bind fd _) = [fd]"
| "sys_fds (Sys_listen fd _) = [fd]"
| "sys_fds (Sys_accept fd) = [fd]"
| "sys_fds (Sys_send fd _) = [fd]"
| "sys_fds (Sys_recv fd _) = [fd]"
| "sys_fds (Sys_sendto fd _ _ _) = [fd]"
| "sys_fds (Sys_recvfrom fd _ _) = [fd]"
| "sys_fds (Sys_poll fds _) = map fst fds"
| "sys_fds (Sys_setsockopt fd _ _) = [fd]"
| "sys_fds (Sys_getsockopt fd _) = [fd]"
| "sys_fds (Sys_fcntl_getfl fd) = [fd]"
| "sys_fds (Sys_fcntl_setfl fd _) = [fd]"
| "sys_fds _ = []"

fun live_after :: "syscall \<Rightarrow> sysret \<Rightarrow> int set \<Rightarrow> int set" where
  "live_after (Sys_close fd) r L = L - {fd}"
| "live_after c r L = (if creates c \<and> ret r \<noteq> - 1 then insert (ret r) L else L)"

fun live :: "trace \<Rightarrow> int set" where
  "live [] = {}"
| "live ((c, r) # tr) = live_after c r (live tr)"

fun trace_ok :: "trace \<Rightarrow> bool" where
  "trace_ok [] = True"
| "trace_ok ((c, r) # tr) \<longleftrightarrow> set (sys_fds c) \<subseteq> live tr \<and> trace_ok tr"

text \<open>
  The program keeps the default action of \<open>SIGPIPE\<close>, so a \<open>send\<close> or \<open>sendto\<close> that finds its
  connection broken (\<open>EPIPE\<close>) ends the process. The model of the code runs on after such a
  call; what the process really does is the part of the history up to it, \<open>killed\<close>.
\<close>

fun broken_pipe :: "syscall \<times> sysret \<Rightarrow> bool" where
  "broken_pipe (Sys_send _ _, r) \<longleftrightarrow> ret r = - 1 \<and> err r = EPIPE"
| "broken_pipe (Sys_sendto _ _ _ _, r) \<longleftrightarrow> ret r = - 1 \<and> err r = EPIPE"
| "broken_pipe _ = False"

fun killed :: "trace \<Rightarrow> trace option" where
  "killed [] = None"
| "killed (e # tr) = (case killed tr of
     Some tr' \<Rightarrow> Some tr'
   | None \<Rightarrow> if broken_pipe e then Some (e # tr) else None)"

lemma trace_ok_killed: "trace_ok tr \<Longrightarrow> killed tr = Some tr' \<Longrightarrow> trace_ok tr'"
  by (induction tr rule: trace_ok.induct) (auto split: option.splits if_splits)

lemma killed_hd: "killed tr = Some tr' \<Longrightarrow> \<exists>c r tr0. tr' = (c, r) # tr0 \<and> broken_pipe (c, r)"
  by (induction tr) (auto split: option.splits if_splits)

text \<open>
  What POSIX documents of the calls that create descriptors: they fail with \<open>-1\<close> or
  return a non-negative number that is not open.
\<close>

definition fresh_fds :: "os_env \<Rightarrow> bool" where
  "fresh_fds E \<longleftrightarrow>
     (\<forall>tr c. creates c \<longrightarrow>
        ret (reply E tr c) = - 1 \<or> 0 \<le> ret (reply E tr c) \<and> ret (reply E tr c) \<notin> live tr)"

text \<open>
  The flags of an open descriptor can be read and written: the only error POSIX lists for
  \<open>F_GETFL\<close> and \<open>F_SETFL\<close> is \<open>EBADF\<close>, for a descriptor that is not open. The program tests
  for a failure nevertheless, and what it does then is part of the model; the theorems that
  exclude it name this hypothesis.
\<close>

definition fcntl_ok :: "os_env \<Rightarrow> bool" where
  "fcntl_ok E \<longleftrightarrow>
     (\<forall>tr fd fl. fd \<in> live tr \<longrightarrow> ret (reply E tr (Sys_fcntl_getfl fd)) \<noteq> - 1 \<and>
        ret (reply E tr (Sys_fcntl_setfl fd fl)) \<noteq> - 1)"

text \<open>
  Receiving calls store at most as many bytes as they were asked for, return that
  number, or fail with \<open>-1\<close>; sending calls accept at most the bytes given.
\<close>

definition io_bounds :: "os_env \<Rightarrow> bool" where
  "io_bounds E \<longleftrightarrow>
     (\<forall>tr fd n p d a l.
        (\<forall>c \<in> {Sys_recv fd n, Sys_recvfrom fd n p}.
           ret (reply E tr c) = - 1 \<or>
           ret (reply E tr c) = int (length (rdata (reply E tr c))) \<and> length (rdata (reply E tr c)) \<le> n) \<and>
        (\<forall>c \<in> {Sys_send fd d, Sys_sendto fd d a l}.
           - 1 \<le> ret (reply E tr c) \<and> ret (reply E tr c) \<le> int (length d)))"

lemma fresh_fdsD:
  "fresh_fds E \<Longrightarrow> creates c \<Longrightarrow> ret (reply E tr c) \<noteq> - 1 \<Longrightarrow>
   0 \<le> ret (reply E tr c) \<and> ret (reply E tr c) \<notin> live tr"
  by (auto simp: fresh_fds_def)

subsection \<open>An environment that satisfies the hypotheses\<close>

text \<open>
  For witnesses: descriptors are numbered upwards past everything the history mentions,
  and every other call is answered by a given function.
\<close>

fun fd_bound :: "trace \<Rightarrow> int" where
  "fd_bound [] = 3"
| "fd_bound ((c, r) # tr) = max (fd_bound tr) (ret r + 1)"

lemma live_below_fd_bound: "fd \<in> live tr \<Longrightarrow> fd < fd_bound tr"
proof (induction tr rule: live.induct)
  case 1
  then show ?case by simp
next
  case (2 c r tr)
  then show ?case by (cases c) (auto split: if_splits)
qed

lemma fd_bound_pos: "3 \<le> fd_bound tr"
  by (induction tr rule: fd_bound.induct) auto

definition lab_env :: "(trace \<Rightarrow> syscall \<Rightarrow> sysret) \<Rightarrow> os_env" where
  "lab_env f =
     \<lparr>reply = (\<lambda>tr c. if creates c then ok_ret\<lparr>ret := fd_bound tr\<rparr> else f tr c),
      strerror_r = (\<lambda>_. Some ''error''), strerror = (\<lambda>_. ''error''),
      gai_strerror = (\<lambda>_. ''error''), inet_ntop = (\<lambda>_. ''addr'')\<rparr>"

lemma fresh_fds_lab_env: "fresh_fds (lab_env f)"
proof -
  have "fd_bound tr \<notin> live tr" for tr
    using live_below_fd_bound [of "fd_bound tr" tr] by auto
  moreover have "0 \<le> fd_bound tr" for tr
    using fd_bound_pos [of tr] by simp
  ultimately show ?thesis
    by (auto simp: fresh_fds_def lab_env_def)
qed

definition os_init :: os where
  "os_init = \<lparr>trace = [], errno = 0, stderr = []\<rparr>"

end
