(* ===== verification/Socket.thy ===== *)
theory Socket
  imports Os_Env
begin

text \<open>
  The socket helpers of \<open>source/socket.c\<close> and \<open>source/socket.h\<close>, in their POSIX branch
  (\<open>SOCKET_USE_POLL\<close>): error reports, printable addresses, readiness tests, the blocking
  mode of a descriptor, and the connection to a host and port given by name.
\<close>

section \<open>Operations\<close>

text \<open>\<open>fprintf(stderr, "%s: ", func)\<close> and the message of \<open>errno\<close>, if there is one.\<close>

definition socket_perror :: "os_env \<Rightarrow> string option \<Rightarrow> ('a os_scheme, unit) state" where
  "socket_perror E func = do {
     (case func of None \<Rightarrow> State_Monad.return () | Some f \<Rightarrow> eprint (f @ '': ''));
     e \<leftarrow> socket_geterror;
     (case strerror_r E e of
        None \<Rightarrow> eprint newline
      | Some t \<Rightarrow> eprint (t @ newline))
   }"

text \<open>\<open>perror\<close> of the C library, which \<open>socket_setblocking\<close> uses.\<close>

definition perror :: "os_env \<Rightarrow> string \<Rightarrow> ('a os_scheme, unit) state" where
  "perror E func = do {
     e \<leftarrow> socket_geterror;
     eprint (func @ '': '' @ strerror E e @ newline)
   }"

text \<open>
  \<open>res\<close> is what the buffer holds before the call. \<open>inet_ntop\<close> fails when its text and
  terminator do not fit; \<open>snprintf\<close> cuts the port off at the end of the buffer.
\<close>

definition INET6_ADDRSTRLEN :: nat where
  "INET6_ADDRSTRLEN = 46"

definition SOCKET_STRADDR_MAXLEN :: nat where
  "SOCKET_STRADDR_MAXLEN = INET6_ADDRSTRLEN + 7"

definition socket_straddr ::
    "os_env \<Rightarrow> string \<Rightarrow> nat \<Rightarrow> sockaddr option \<Rightarrow> (int \<times> string) cres" where
  "socket_straddr E res res_len addr =
     (case addr of
        None \<Rightarrow> Abort Null_dereference
      | Some Sockaddr_other \<Rightarrow> Ret (- 1, res)
      | Some a \<Rightarrow>
          let inport = (case a of
                Sockaddr_in p _ \<Rightarrow> ucast (ntohs p) AND (0xFFFF :: u32)
              | Sockaddr_in6 p _ \<Rightarrow> ucast (ntohs p) AND 0xFFFF
              | Sockaddr_other \<Rightarrow> 0);
              text = inet_ntop E a;
              pos = length text
          in if res_len \<le> pos then Ret (- 1, res)
             else Ret (0, text @ take (res_len - pos - 1) (CHR '':'' # show_nat (unat inport))))"

definition socket_hasdata :: "os_env \<Rightarrow> int \<Rightarrow> ('a os_scheme, int) state" where
  "socket_hasdata E socket = do {
     rc \<leftarrow> sys E (Sys_poll [(socket, [POLLIN, POLLPRI])] 0);
     when_st (ret rc = - 1) (socket_perror E (Some ''poll''));
     State_Monad.return (ret rc)
   }"

text \<open>The variable \<open>err\<close> has no value when \<open>getsockopt\<close> fails: reading it is undefined.\<close>

definition socket_isconnected :: "os_env \<Rightarrow> int \<Rightarrow> ('a os_scheme, int cres) state" where
  "socket_isconnected E socket = do {
     rc \<leftarrow> sys E (Sys_poll [(socket, [POLLOUT])] 0);
     when_st (ret rc = - 1) (socket_perror E (Some ''poll''));
     if ret rc \<le> 0 then ret_ok (ret rc)
     else do {
       r \<leftarrow> sys E (Sys_getsockopt socket SO_ERROR);
       if ret r = SOCKET_ERROR then abort Uninitialised
       else do {
         socket_seterror (rval r);
         ret_ok (if rval r \<noteq> 0 then - 1 else 1)
       }
     }
   }"

definition socket_wait :: "os_env \<Rightarrow> int list \<Rightarrow> int \<Rightarrow> ('a os_scheme, int) state" where
  "socket_wait E sockets delay = do {
     rc \<leftarrow> sys E (Sys_poll (map (\<lambda>fd. (fd, [POLLIN])) sockets) delay);
     when_st (ret rc = - 1) (socket_perror E (Some ''poll''));
     State_Monad.return (ret rc)
   }"

definition socket_setblocking :: "os_env \<Rightarrow> int \<Rightarrow> bool \<Rightarrow> ('a os_scheme, int) state" where
  "socket_setblocking E socket flag = do {
     r \<leftarrow> sys E (Sys_fcntl_getfl socket);
     if ret r = - 1 then do {
       perror E ''fcntl'';
       State_Monad.return (- 1)
     } else do {
       let flags = (word_of_int (ret r) :: u32) AND NOT O_NONBLOCK;
       let flags = (if \<not> flag then flags OR O_NONBLOCK else flags);
       r' \<leftarrow> sys E (Sys_fcntl_setfl socket flags);
       if ret r' = - 1 then do {
         perror E ''fcntl'';
         State_Monad.return (- 1)
       } else State_Monad.return 0
     }
   }"

definition socket_close :: "os_env \<Rightarrow> int \<Rightarrow> ('a os_scheme, sysret) state" where
  "socket_close E socket = sys E (Sys_close socket)"

definition sockaddr_len :: "sockaddr \<Rightarrow> nat" where
  "sockaddr_len a = (case a of Sockaddr_in _ _ \<Rightarrow> 16 | Sockaddr_in6 _ _ \<Rightarrow> 28 | Sockaddr_other \<Rightarrow> 16)"

text \<open>
  The loop of \<open>socket_connect\<close> over the resolved addresses. The result is the connected
  descriptor (\<open>None\<close> when the list ran out, \<open>info == NULL\<close>) and the last error of
  \<open>connect\<close>.
\<close>

fun socket_connect_loop :: "os_env \<Rightarrow> addrinfo list \<Rightarrow> int \<Rightarrow> ('a os_scheme, int option \<times> int) state" where
  "socket_connect_loop E [] error = State_Monad.return (None, error)"
| "socket_connect_loop E (info # infos) error = do {
     socket_seterror 0;
     sock \<leftarrow> sys E (Sys_socket (ai_family info) (ai_socktype info) (ai_protocol info));
     if ret sock = INVALID_SOCKET then do {
       socket_perror E (Some ''socket'');
       socket_connect_loop E infos error
     } else do {
       r \<leftarrow> sys E (Sys_connect (ret sock) (Some (ai_addr info)) (Some (sockaddr_len (ai_addr info))));
       if ret r = 0 then State_Monad.return (Some (ret sock), error)
       else do {
         e \<leftarrow> socket_geterror;
         _ \<leftarrow> socket_close E (ret sock);
         socket_connect_loop E infos e
       }
     }
   }"

definition socket_connect :: "os_env \<Rightarrow> string \<Rightarrow> string \<Rightarrow> ('a os_scheme, int) state" where
  "socket_connect E host port = do {
     gai \<leftarrow> sys E (Sys_getaddrinfo host port AF_UNSPEC SOCK_STREAM IPPROTO_TCP);
     if ret gai \<noteq> 0 then do {
       eprint (''getaddrinfo: '' @ gai_strerror E (ret gai) @ newline);
       State_Monad.return INVALID_SOCKET
     } else do {
       (found, error) \<leftarrow> socket_connect_loop E (rinfo gai) 0;
       socket_seterror error;
       State_Monad.return (case found of None \<Rightarrow> INVALID_SOCKET | Some sock \<Rightarrow> sock)
     }
   }"

section \<open>What the helpers change\<close>

text \<open>
  None of the helpers but \<open>socket_close\<close> and \<open>socket_connect\<close> opens or closes anything: an
  \<open>observer\<close> adds calls to the history that leave \<open>live\<close> as it is, and keeps
  \<open>trace_ok\<close> when its descriptors are open.
\<close>

definition observer :: "int set \<Rightarrow> ('a os_scheme, 'b) state \<Rightarrow> bool" where
  "observer F m \<longleftrightarrow>
     (\<forall>s. let s' = snd (run_state m s) in
        live (trace s') = live (trace s) \<and> os.more s' = os.more s \<and>
        (trace_ok (trace s) \<longrightarrow> F \<subseteq> live (trace s) \<longrightarrow> trace_ok (trace s')))"

named_theorems observer_intros

lemma observer_return [observer_intros]: "observer F (State_Monad.return x)"
  by (simp add: observer_def)

lemma observer_bind [observer_intros]:
  assumes "observer F m" and "\<And>x. observer F (f x)"
  shows "observer F (State_Monad.bind m f)"
  unfolding observer_def Let_def
proof
  fix s
  obtain x s1 where m: "run_state m s = (x, s1)" by (cases "run_state m s")
  obtain y s2 where f: "run_state (f x) s1 = (y, s2)" by (cases "run_state (f x) s1")
  have "live (trace s1) = live (trace s) \<and> os.more s1 = os.more s \<and>
      (trace_ok (trace s) \<longrightarrow> F \<subseteq> live (trace s) \<longrightarrow> trace_ok (trace s1))"
    using assms(1) m by (simp add: observer_def Let_def) (metis snd_conv)
  moreover have "live (trace s2) = live (trace s1) \<and> os.more s2 = os.more s1 \<and>
      (trace_ok (trace s1) \<longrightarrow> F \<subseteq> live (trace s1) \<longrightarrow> trace_ok (trace s2))"
    using assms(2) [of x] f by (simp add: observer_def Let_def) (metis snd_conv)
  ultimately show "live (trace (snd (run_state (State_Monad.bind m f) s))) = live (trace s) \<and>
      os.more (snd (run_state (State_Monad.bind m f) s)) = os.more s \<and>
      (trace_ok (trace s) \<longrightarrow> F \<subseteq> live (trace s) \<longrightarrow>
       trace_ok (trace (snd (run_state (State_Monad.bind m f) s))))"
    by (simp add: m f)
qed

lemma observer_if [observer_intros]:
  "observer F m \<Longrightarrow> observer F n \<Longrightarrow> observer F (if b then m else n)"
  by simp

lemma observer_when [observer_intros]: "observer F m \<Longrightarrow> observer F (when_st b m)"
  by (simp add: when_st_def observer_return)

lemma observer_let [observer_intros]: "(\<And>x. observer F (f x)) \<Longrightarrow> observer F (let x = t in f x)"
  by simp

lemma observer_eprint [observer_intros]: "observer F (eprint t)"
  by (simp add: observer_def)

lemma observer_seterror [observer_intros]: "observer F (socket_seterror e)"
  by (simp add: observer_def)

lemma observer_geterror [observer_intros]: "observer F socket_geterror"
  by (simp add: observer_def)

lemma observer_case_option [observer_intros]:
  "observer F m \<Longrightarrow> (\<And>x. observer F (f x)) \<Longrightarrow> observer F (case v of None \<Rightarrow> m | Some x \<Rightarrow> f x)"
  by (simp split: option.split)

text \<open>Calls that neither create nor close a descriptor.\<close>

fun inert :: "syscall \<Rightarrow> bool" where
  "inert (Sys_close _) = False"
| "inert c = (\<not> creates c)"

lemma live_inert: "inert c \<Longrightarrow> live ((c, r) # tr) = live tr"
  by (cases c) simp_all

lemma observer_sys [observer_intros]:
  "inert c \<Longrightarrow> set (sys_fds c) \<subseteq> F \<Longrightarrow> observer F (sys E c)"
  by (auto simp: observer_def live_inert simp del: live.simps)

lemma observer_perror [observer_intros]: "observer F (socket_perror E f)"
  unfolding socket_perror_def by (intro observer_intros)

lemma observer_c_perror [observer_intros]: "observer F (perror E f)"
  unfolding perror_def by (intro observer_intros)

lemma observer_hasdata: "observer {fd} (socket_hasdata E fd)"
  unfolding socket_hasdata_def by (intro observer_intros) simp_all

lemma observer_isconnected: "observer {fd} (socket_isconnected E fd)"
  unfolding socket_isconnected_def by (intro observer_intros) simp_all

lemma observer_wait: "observer (set fds) (socket_wait E fds d)"
  unfolding socket_wait_def by (intro observer_intros) (simp_all add: comp_def)

lemma observer_setblocking: "observer {fd} (socket_setblocking E fd b)"
  unfolding socket_setblocking_def by (intro observer_intros) simp_all

lemma observerD:
  assumes "observer F m" and "run_state m s = (x, s')"
  shows "live (trace s') = live (trace s)" and "os.more s' = os.more s"
    and "trace_ok (trace s) \<Longrightarrow> F \<subseteq> live (trace s) \<Longrightarrow> trace_ok (trace s')"
  using assms by (auto simp: observer_def Let_def dest: spec [of _ s])

section \<open>Connecting by name\<close>

text \<open>The text an error report adds, and the report as one update of the error stream.\<close>

definition perror_text :: "os_env \<Rightarrow> string option \<Rightarrow> int \<Rightarrow> string" where
  "perror_text E func e =
     (case func of None \<Rightarrow> [] | Some f \<Rightarrow> f @ '': '') @
     (case strerror_r E e of None \<Rightarrow> newline | Some t \<Rightarrow> t @ newline)"

lemma run_perror [simp]:
  "run_state (socket_perror E func) s = ((), s\<lparr>stderr := stderr s @ perror_text E func (errno s)\<rparr>)"
  by (simp add: socket_perror_def perror_text_def split: option.split)

lemma run_c_perror [simp]:
  "run_state (perror E f) s = ((), s\<lparr>stderr := stderr s @ f @ '': '' @ strerror E (errno s) @ newline\<rparr>)"
  by (simp add: perror_def)

lemma trace_perror: "trace (snd (run_state (socket_perror E f) s)) = trace s"
  by simp

lemma more_perror: "os.more (snd (run_state (socket_perror E f) s)) = os.more s"
  by simp

text \<open>
  One round of the connection loop: no socket for this address, a connection, or a
  refused connection whose socket is closed again.
\<close>

lemma socket_connect_loop_cases:
  assumes "run_state (socket_connect_loop E (info # infos) error) s = ((found, error'), s')"
  obtains
    (no_socket) c r t where "c = Sys_socket (ai_family info) (ai_socktype info) (ai_protocol info)"
      "r = reply E (trace s) c" "ret r = - 1" "trace t = (c, r) # trace s" "os.more t = os.more s"
      "run_state (socket_connect_loop E infos error) t = ((found, error'), s')"
  | (joined) c r l q where "c = Sys_socket (ai_family info) (ai_socktype info) (ai_protocol info)"
      "r = reply E (trace s) c" "ret r \<noteq> - 1" "ret q = 0" "found = Some (ret r)"
      "trace s' = (Sys_connect (ret r) (Some (ai_addr info)) l, q) # (c, r) # trace s"
      "os.more s' = os.more s"
  | (refused) c r l q e t k where "c = Sys_socket (ai_family info) (ai_socktype info) (ai_protocol info)"
      "r = reply E (trace s) c" "ret r \<noteq> - 1" "ret q \<noteq> 0"
      "trace t = (Sys_close (ret r), k) # (Sys_connect (ret r) (Some (ai_addr info)) l, q) # (c, r) # trace s"
      "os.more t = os.more s"
      "run_state (socket_connect_loop E infos e) t = ((found, error'), s')"
proof -
  let ?c = "Sys_socket (ai_family info) (ai_socktype info) (ai_protocol info)"
  let ?s1 = "logged E ?c (s\<lparr>errno := 0\<rparr>)"
  let ?r = "reply E (trace s) ?c"
  let ?l = "Some (sockaddr_len (ai_addr info))"
  let ?a = "Sys_connect (ret ?r) (Some (ai_addr info)) ?l"
  let ?s2 = "logged E ?a ?s1"
  let ?q = "reply E (trace ?s1) ?a"
  show thesis
  proof (cases "ret ?r = - 1")
    case True
    let ?t = "snd (run_state (socket_perror E (Some ''socket'')) ?s1)"
    have "run_state (socket_connect_loop E infos error) ?t = ((found, error'), s')"
      using assms True by (simp split: prod.splits)
    then show thesis
      using True by (intro no_socket [of ?c ?r ?t]) (simp_all add: trace_perror more_perror)
  next
    case sock: False
    show thesis
    proof (cases "ret ?q = 0")
      case True
      then show thesis
        using assms sock by (intro joined [of ?c ?r ?q ?l]) auto
    next
      case False
      let ?t = "logged E (Sys_close (ret ?r)) ?s2"
      have "run_state (socket_connect_loop E infos (errno ?s2)) ?t = ((found, error'), s')"
        using assms sock False by (simp add: socket_close_def)
      then show thesis
        using sock False by (intro refused [of ?c ?r ?q ?t _ ?l "errno ?s2"]) simp_all
    qed
  qed
qed

text \<open>
  The effect of the connection loop on the open descriptors: the connected descriptor
  is new and is the only one left over; without one, nothing is left over.
\<close>

lemma socket_connect_loop_live:
  assumes "fresh_fds E" and "run_state (socket_connect_loop E infos error) s = ((found, error'), s')"
  shows "(case found of
            None \<Rightarrow> live (trace s') = live (trace s)
          | Some fd \<Rightarrow> 0 \<le> fd \<and> fd \<notin> live (trace s) \<and> live (trace s') = insert fd (live (trace s))) \<and>
         os.more s' = os.more s \<and> (trace_ok (trace s) \<longrightarrow> trace_ok (trace s'))"
  using assms(2)
proof (induction infos arbitrary: error s)
  case Nil
  then show ?case by simp
next
  case (Cons info infos)
  from Cons.prems show ?case
  proof (cases rule: socket_connect_loop_cases)
    case (no_socket c r t)
    with Cons.IH [OF no_socket(6)] show ?thesis by (simp split: option.splits)
  next
    case (joined c r l q)
    with fresh_fdsD [OF assms(1), of c "trace s"] show ?thesis by simp
  next
    case (refused c r l q e t k)
    with fresh_fdsD [OF assms(1), of c "trace s"] Cons.IH [OF refused(7)] show ?thesis
      by (simp add: insert_Diff_if split: option.splits)
  qed
qed

lemma socket_connect_live:
  assumes "fresh_fds E" and "run_state (socket_connect E host port) s = (fd, s')"
  shows "(if fd = INVALID_SOCKET then live (trace s') = live (trace s)
          else 0 \<le> fd \<and> fd \<notin> live (trace s) \<and> live (trace s') = insert fd (live (trace s))) \<and>
         (trace_ok (trace s) \<longrightarrow> trace_ok (trace s'))"
proof -
  let ?g = "Sys_getaddrinfo host port AF_UNSPEC SOCK_STREAM IPPROTO_TCP"
  let ?r = "reply E (trace s) ?g"
  obtain found error s1 where
    loop: "run_state (socket_connect_loop E (rinfo ?r) 0) (logged E ?g s) = ((found, error), s1)"
    by (metis prod.exhaust)
  note L = socket_connect_loop_live [OF assms(1) loop]
  show ?thesis
  proof (cases "ret ?r = 0")
    case True
    then have "fd = (case found of None \<Rightarrow> INVALID_SOCKET | Some sock \<Rightarrow> sock)"
      and "s' = s1\<lparr>errno := error\<rparr>"
      using assms(2) loop by (simp_all add: socket_connect_def)
    then show ?thesis using L by (simp split: option.splits)
  next
    case False
    then show ?thesis using assms(2) by (auto simp: socket_connect_def)
  qed
qed

text \<open>C15.
  Connecting by name never leaks a descriptor: a failed attempt leaves exactly the
  descriptors that were open before, a successful one adds the returned descriptor,
  which is valid and was not open, and nothing else. Every call on the way names open
  descriptors only.
\<close>

theorem socket_connect_owns_result:
  assumes "fresh_fds E" and "run_state (socket_connect E host port) s = (fd, s')"
  shows "(if fd = INVALID_SOCKET then live (trace s') = live (trace s)
          else 0 \<le> fd \<and> fd \<notin> live (trace s) \<and> live (trace s') = insert fd (live (trace s))) \<and>
         (trace_ok (trace s) \<longrightarrow> trace_ok (trace s'))"
  by (rule socket_connect_live [OF assms])

definition connect_lab :: os_env where
  "connect_lab = lab_env (\<lambda>tr c. case c of
      Sys_getaddrinfo _ _ _ _ _ \<Rightarrow> ok_ret\<lparr>rinfo :=
        [\<lparr>ai_family = AF_INET6, ai_socktype = SOCK_STREAM, ai_protocol = 6,
          ai_addr = Sockaddr_in6 0 (replicate 16 0)\<rparr>,
         \<lparr>ai_family = AF_INET, ai_socktype = SOCK_STREAM, ai_protocol = 6,
          ai_addr = Sockaddr_in 0 [127, 0, 0, 1]\<rparr>]\<rparr>
    | Sys_connect _ (Some (Sockaddr_in6 _ _)) _ \<Rightarrow> ok_ret\<lparr>ret := - 1, err := 111\<rparr>
    | _ \<Rightarrow> ok_ret)"

theorem socket_connect_owns_result_witness:
  "fresh_fds connect_lab \<and> result (socket_connect connect_lab ''h'' ''p'') os_init = 4 \<and>
   live (trace (exec (socket_connect connect_lab ''h'' ''p'') os_init)) = {4}"
proof -
  have f: "fresh_fds connect_lab"
    unfolding connect_lab_def by (rule fresh_fds_lab_env)
  have r: "result (socket_connect connect_lab ''h'' ''p'') os_init = 4"
    by code_simp
  show ?thesis
    using f r socket_connect_owns_result [OF f run_state_pair, of "''h''" "''p''" os_init]
    by (simp add: os_init_def)
qed

text \<open>
  Addresses are tried in the resolver's order. \<open>sockets_asked evs\<close> are the \<open>socket\<close> calls of a
  stretch of history in the order they were made, and \<open>refused info evs\<close> says that the
  system gave no socket for this address or refused the connection to it.
  \<open>first_connected infos found evs\<close>: a socket was asked for each of the addresses up to
  the one found (for all, if none was found), in their order and once each; all of them
  but the one found were refused; and the connection to that one is the last call and
  the only \<open>connect\<close> that succeeded.
\<close>

fun connected :: "trace \<Rightarrow> bool" where
  "connected [] = False"
| "connected ((Sys_connect fd a l, r) # tr) \<longleftrightarrow> ret r = 0 \<or> connected tr"
| "connected (_ # tr) = connected tr"

fun asks_socket :: "syscall \<Rightarrow> bool" where
  "asks_socket (Sys_socket _ _ _) = True"
| "asks_socket _ = False"

definition sockets_asked :: "trace \<Rightarrow> syscall list" where
  "sockets_asked evs = filter asks_socket (map fst (rev evs))"

definition socket_call :: "addrinfo \<Rightarrow> syscall" where
  "socket_call info = Sys_socket (ai_family info) (ai_socktype info) (ai_protocol info)"

definition refused :: "addrinfo \<Rightarrow> trace \<Rightarrow> bool" where
  "refused info evs \<longleftrightarrow> (\<exists>r. (socket_call info, r) \<in> set evs \<and>
     (ret r = INVALID_SOCKET \<or> (\<exists>l q. (Sys_connect (ret r) (Some (ai_addr info)) l, q) \<in> set evs \<and> ret q \<noteq> 0)))"

definition first_connected :: "addrinfo list \<Rightarrow> int option \<Rightarrow> trace \<Rightarrow> bool" where
  "first_connected infos found evs \<longleftrightarrow>
     (case found of
        None \<Rightarrow> \<not> connected evs \<and> sockets_asked evs = map socket_call infos \<and> (\<forall>info \<in> set infos. refused info evs)
      | Some fd \<Rightarrow> \<exists>before info after l r evs'. infos = before @ info # after \<and>
          evs = (Sys_connect fd (Some (ai_addr info)) l, r) # evs' \<and> ret r = 0 \<and> \<not> connected evs' \<and>
          sockets_asked evs' = map socket_call (before @ [info]) \<and> (\<forall>i \<in> set before. refused i evs'))"

lemma connected_append: "connected (a @ b) \<longleftrightarrow> connected a \<or> connected b"
  by (induction a rule: connected.induct) auto

lemma sockets_asked_append: "sockets_asked (a @ b) = sockets_asked b @ sockets_asked a"
  by (simp add: sockets_asked_def)

lemma refused_append: "refused i a \<or> refused i b \<Longrightarrow> refused i (a @ b)"
  unfolding refused_def set_append by blast

lemma first_connected_skip:
  assumes "first_connected infos found evs"
    and "\<not> connected mid" and "sockets_asked mid = [socket_call i]" and "refused i mid"
  shows "first_connected (i # infos) found (evs @ mid)"
proof (cases found)
  case None
  with assms show ?thesis
    by (auto simp: first_connected_def connected_append sockets_asked_append refused_append)
next
  case (Some fd)
  with assms(1) obtain before info after l r evs' where
    "infos = before @ info # after" "evs = (Sys_connect fd (Some (ai_addr info)) l, r) # evs'" "ret r = 0"
    "\<not> connected evs'" "sockets_asked evs' = map socket_call (before @ [info])" "\<forall>i \<in> set before. refused i evs'"
    by (auto simp: first_connected_def)
  with assms(2-4) show ?thesis
    unfolding first_connected_def Some option.case
    by (intro exI [of _ "i # before"] exI [of _ info] exI [of _ after] exI [of _ l] exI [of _ r] exI [of _ "evs' @ mid"])
      (auto simp: connected_append sockets_asked_append refused_append)
qed

lemma socket_connect_loop_order:
  assumes "run_state (socket_connect_loop E infos error) s = ((found, error'), s')"
  shows "\<exists>evs. trace s' = evs @ trace s \<and> first_connected infos found evs"
  using assms
proof (induction infos arbitrary: error s)
  case Nil
  then show ?case by (simp add: first_connected_def sockets_asked_def)
next
  case (Cons info infos)
  from Cons.prems show ?case
  proof (cases rule: socket_connect_loop_cases)
    case (no_socket c r t)
    have "first_connected (info # infos) found (evs @ [(c, r)])" if "first_connected infos found evs" for evs
      using no_socket(1,3)
      by (intro first_connected_skip [OF that]) (auto simp: sockets_asked_def socket_call_def refused_def)
    with Cons.IH [OF no_socket(6)] no_socket(4) show ?thesis by fastforce
  next
    case (joined c r l q)
    then show ?thesis
      by (intro exI [of _ "[(Sys_connect (ret r) (Some (ai_addr info)) l, q), (c, r)]"])
        (auto simp: first_connected_def sockets_asked_def socket_call_def intro!: exI [of _ "[]"])
  next
    case (refused c r l q e t k)
    have "first_connected (info # infos) found (evs @ [(Sys_close (ret r), k),
        (Sys_connect (ret r) (Some (ai_addr info)) l, q), (c, r)])" if "first_connected infos found evs" for evs
      using refused(1,3,4)
      by (intro first_connected_skip [OF that]) (auto simp: sockets_asked_def socket_call_def refused_def)
    with Cons.IH [OF refused(7)] refused(5) show ?thesis by fastforce
  qed
qed

text \<open>C16.
  The descriptor returned is connected to the first address of the resolver's list
  that accepts: a socket was asked for every address up to it, in order; for each
  address before it the system gave no socket or refused the connection; and the
  connection is the last call made. When the result is invalid and the name was
  resolved, every address of the list was tried and refused.
\<close>

theorem socket_connect_first_reachable:
  assumes "fresh_fds E" and "run_state (socket_connect E host port) s = (fd, s')"
  shows "\<exists>evs gai. trace s' = evs @ (Sys_getaddrinfo host port AF_UNSPEC SOCK_STREAM IPPROTO_TCP, gai) # trace s \<and>
    (if ret gai = 0 then first_connected (rinfo gai) (if fd = INVALID_SOCKET then None else Some fd) evs
     else fd = INVALID_SOCKET \<and> evs = [])"
proof -
  let ?g = "Sys_getaddrinfo host port AF_UNSPEC SOCK_STREAM IPPROTO_TCP"
  let ?r = "reply E (trace s) ?g"
  obtain found error s1 where
    loop: "run_state (socket_connect_loop E (rinfo ?r) 0) (logged E ?g s) = ((found, error), s1)"
    by (metis prod.exhaust)
  show ?thesis
  proof (cases "ret ?r = 0")
    case True
    then have "fd = (case found of None \<Rightarrow> INVALID_SOCKET | Some sock \<Rightarrow> sock)"
      and "trace s' = trace s1"
      using assms(2) loop by (auto simp: socket_connect_def)
    moreover obtain evs where "trace s1 = evs @ (?g, ?r) # trace s" "first_connected (rinfo ?r) found evs"
      using socket_connect_loop_order [OF loop] by auto
    ultimately show ?thesis
      using socket_connect_loop_live [OF assms(1) loop] True
      by (intro exI [of _ evs] exI [of _ ?r]) (auto split: option.splits)
  next
    case False
    then show ?thesis
      using assms(2) by (intro exI [of _ "[]"] exI [of _ ?r]) (auto simp: socket_connect_def)
  qed
qed

theorem socket_connect_first_reachable_witness:
  "\<exists>evs gai. trace (exec (socket_connect connect_lab ''h'' ''p'') os_init) =
       evs @ [(Sys_getaddrinfo ''h'' ''p'' AF_UNSPEC SOCK_STREAM IPPROTO_TCP, gai)] \<and>
     first_connected (rinfo gai) (Some 4) evs"
proof -
  have f: "fresh_fds connect_lab"
    unfolding connect_lab_def by (rule fresh_fds_lab_env)
  have r: "result (socket_connect connect_lab ''h'' ''p'') os_init = 4"
    by code_simp
  have "(4 :: int) \<noteq> INVALID_SOCKET" by simp
  with socket_connect_first_reachable [OF f run_state_pair, of "''h''" "''p''" os_init] show ?thesis
    unfolding r by (auto simp: os_init_def split: if_splits)
qed

text \<open>C36.
  When the system has no socket for any resolved address, the caller of
  \<open>socket_connect\<close> gets the invalid descriptor with \<open>errno\<close> zero: the reason for the
  failure is lost, and the message printed after it is the one of error number 0.
\<close>

theorem socket_connect_loses_socket_error:
  assumes "\<forall>tr f t p. ret (reply E tr (Sys_socket f t p)) = INVALID_SOCKET"
    and "ret (reply E (trace s) (Sys_getaddrinfo host port AF_UNSPEC SOCK_STREAM IPPROTO_TCP)) = 0"
  shows "result (socket_connect E host port) s = INVALID_SOCKET \<and>
    errno (exec (socket_connect E host port) s) = 0"
proof -
  have loop: "fst (run_state (socket_connect_loop E infos 0) t) = (None, 0)" for infos and t :: "'a os_scheme"
    by (induction infos arbitrary: t) (auto simp: assms(1) split: prod.splits)
  let ?g = "Sys_getaddrinfo host port AF_UNSPEC SOCK_STREAM IPPROTO_TCP"
  obtain t where "run_state (socket_connect_loop E (rinfo (reply E (trace s) ?g)) 0) (logged E ?g s) = ((None, 0), t)"
    using loop [of "rinfo (reply E (trace s) ?g)" "logged E ?g s"] by (metis prod.collapse)
  then show ?thesis
    using assms(2) by (simp add: result_def exec_def socket_connect_def)
qed

theorem socket_connect_loses_socket_error_witness:
  "errno (exec (socket_connect (connect_lab\<lparr>reply := (\<lambda>tr c. case c of
       Sys_socket _ _ _ \<Rightarrow> ok_ret\<lparr>ret := - 1, err := 97\<rparr> | _ \<Rightarrow> reply connect_lab tr c)\<rparr>)
     ''h'' ''p'') os_init) = 0"
  using socket_connect_loses_socket_error [of "connect_lab\<lparr>reply := (\<lambda>tr c. case c of
       Sys_socket _ _ _ \<Rightarrow> ok_ret\<lparr>ret := - 1, err := 97\<rparr> | _ \<Rightarrow> reply connect_lab tr c)\<rparr>" os_init "''h''" "''p''"]
  by (simp add: connect_lab_def lab_env_def ok_ret_def)

section \<open>The blocking mode\<close>

lemma bit_O_NONBLOCK: "bit O_NONBLOCK n \<longleftrightarrow> n = 11"
proof -
  have "(0x800 :: u32) = 2 ^ 11" by simp
  then have "bit (0x800 :: u32) n \<longleftrightarrow> possible_bit TYPE(u32) 11 \<and> n = 11"
    by (metis bit_exp_iff)
  then show ?thesis by simp
qed

lemma bit_clear_nonblock: "bit (w AND NOT O_NONBLOCK) n \<longleftrightarrow> n \<noteq> 11 \<and> bit w n"
  unfolding bit_and_iff bit_not_iff bit_O_NONBLOCK
  by (auto dest: bit_imp_le_length)

lemma bit_set_nonblock: "bit (w AND NOT O_NONBLOCK OR O_NONBLOCK) n \<longleftrightarrow> n = 11 \<or> bit w n"
  unfolding bit_or_iff bit_clear_nonblock bit_O_NONBLOCK by blast

definition new_flags :: "bool \<Rightarrow> u32 \<Rightarrow> u32" where
  "new_flags flag fl =
     (let fl = fl AND NOT O_NONBLOCK in if \<not> flag then fl OR O_NONBLOCK else fl)"

lemma bit_new_flags: "bit (new_flags flag fl) n \<longleftrightarrow> (if n = 11 then \<not> flag else bit fl n)"
  unfolding new_flags_def Let_def using bit_clear_nonblock bit_set_nonblock by auto

lemma run_setblocking:
  "run_state (socket_setblocking E fd flag) s =
     (let r = reply E (trace s) (Sys_fcntl_getfl fd);
          s1 = logged E (Sys_fcntl_getfl fd) s;
          c = Sys_fcntl_setfl fd (new_flags flag (word_of_int (ret r)));
          s2 = logged E c s1
      in if ret r = - 1 then (- 1, snd (run_state (perror E ''fcntl'') s1))
         else if ret (reply E (trace s1) c) = - 1
         then (- 1, snd (run_state (perror E ''fcntl'') s2))
         else (0, s2))"
  unfolding socket_setblocking_def new_flags_def Let_def by (simp split: prod.split)

text \<open>C31.
  A successful \<open>socket_setblocking\<close> wrote back the flags it had read with exactly one
  bit changed: \<open>O_NONBLOCK\<close> (bit 11) is clear when blocking is asked for and set
  otherwise, every other flag is as it was. It fails only when one of the two
  \<open>fcntl\<close> calls failed.
\<close>

theorem socket_setblocking_flags:
  "(result (socket_setblocking E fd flag) s = 0 \<longleftrightarrow>
      ret (reply E (trace s) (Sys_fcntl_getfl fd)) \<noteq> - 1 \<and>
      (\<exists>fl q. trace (exec (socket_setblocking E fd flag) s) = (Sys_fcntl_setfl fd fl, q) #
           (Sys_fcntl_getfl fd, reply E (trace s) (Sys_fcntl_getfl fd)) # trace s \<and> ret q \<noteq> - 1 \<and>
         (\<forall>n. bit fl n = (if n = 11 then \<not> flag
            else bit (word_of_int (ret (reply E (trace s) (Sys_fcntl_getfl fd))) :: u32) n)))) \<and>
   result (socket_setblocking E fd flag) s \<in> {0, - 1}"
  by (auto simp: result_def exec_def run_setblocking Let_def trace_perror bit_new_flags)

section \<open>Printable addresses and connection tests\<close>

fun sa_port :: "sockaddr \<Rightarrow> u16" where
  "sa_port (Sockaddr_in p _) = p"
| "sa_port (Sockaddr_in6 p _) = p"
| "sa_port Sockaddr_other = 0"

lemma unat_port_mask: "unat (ucast (p :: u16) AND (0xFFFF :: u32)) = unat p"
proof -
  have eq: "(0xFFFF :: u32) = mask 16" by (simp add: mask_eq_exp_minus_1)
  have "unat (ucast p AND (0xFFFF :: u32)) = take_bit 16 (unat (ucast p :: u32))"
    by (simp only: eq unsigned_take_bit_eq flip: take_bit_eq_mask)
  also have "\<dots> = take_bit 16 (unat p)"
    by (simp add: unsigned_ucast_eq)
  also have "\<dots> = unat p"
    using unsigned_less [of p, where ?'a = nat] by (simp add: take_bit_nat_eq_self)
  finally show ?thesis .
qed

text \<open>C32.
  With a buffer of \<open>SOCKET_STRADDR_MAXLEN\<close> bytes, an IPv4 or IPv6 address whose text
  has the length POSIX allows is printed completely, as address, colon and decimal
  port, and the terminator fits as well.
\<close>

theorem socket_straddr_complete:
  assumes "a \<noteq> Sockaddr_other" and "length (inet_ntop E a) < INET6_ADDRSTRLEN"
  shows "socket_straddr E res SOCKET_STRADDR_MAXLEN (Some a) =
      Ret (0, inet_ntop E a @ '':'' @ show_nat (unat (ntohs (sa_port a)))) \<and>
    length (inet_ntop E a @ '':'' @ show_nat (unat (ntohs (sa_port a)))) < SOCKET_STRADDR_MAXLEN"
proof -
  have "unat (ntohs (sa_port a)) < 10 ^ 5"
    using unsigned_less [of "ntohs (sa_port a)", where ?'a = nat] by simp
  then have "length (show_nat (unat (ntohs (sa_port a)))) \<le> 5"
    by (intro length_show_nat) simp_all
  then show ?thesis
    using assms
    by (cases a) (auto simp: socket_straddr_def SOCKET_STRADDR_MAXLEN_def INET6_ADDRSTRLEN_def Let_def unat_port_mask)
qed

theorem socket_straddr_complete_witness:
  "socket_straddr (lab_env (\<lambda>_ _. ok_ret)\<lparr>inet_ntop := (\<lambda>_. ''127.0.0.1'')\<rparr>) '''' SOCKET_STRADDR_MAXLEN
     (Some (Sockaddr_in (htons 1027) [127, 0, 0, 1])) = Ret (0, ''127.0.0.1:1027'')"
proof -
  have "show_nat 1027 = ''1027''" by code_simp
  then show ?thesis
    using socket_straddr_complete [of "Sockaddr_in (htons 1027) [127, 0, 0, 1]"
        "lab_env (\<lambda>_ _. ok_ret)\<lparr>inet_ntop := (\<lambda>_. ''127.0.0.1'')\<rparr>" "''''"]
    by (simp add: INET6_ADDRSTRLEN_def)
qed

text \<open>
  A failing \<open>getsockopt\<close> makes \<open>socket_isconnected\<close> read a variable that has no value.
  The program does not call the function.
\<close>

lemma socket_isconnected_uninitialised:
  assumes "poll = Sys_poll [(fd, [POLLOUT])] 0" and "p = reply E (trace s) poll" and "0 < ret p"
    and "ret (reply E ((poll, p) # trace s) (Sys_getsockopt fd SO_ERROR)) = SOCKET_ERROR"
  shows "result (socket_isconnected E fd) s = Abort Uninitialised"
  using assms by (simp add: result_def socket_isconnected_def)

end
