(* ===== verification/Socket_Impl.thy ===== *)
theory Socket_Impl
  imports Socket
begin

text \<open>
  The connection table of \<open>source/socket_impl.c\<close>: the sockets libmobile asks for, one per
  connection number. The array \<open>sockets\<close> of \<open>struct socket_impl\<close> extends the program's
  memory; its length is libmobile's \<open>MOBILE_MAX_CONNECTIONS\<close>, a parameter. A connection
  number outside the array and a failed assertion end the process (\<open>Abort\<close>).
\<close>

section \<open>Data\<close>

text \<open>
  libmobile's enumerations and its address struct, as far as this program uses them;
  \<open>_OTHER\<close> stands for every other enumerator. A port is kept at the width of
  \<open>unsigned\<close>; \<open>htons\<close> takes its low 16 bits.
\<close>

datatype mobile_socktype = MOBILE_SOCKTYPE_TCP | MOBILE_SOCKTYPE_UDP | SOCKTYPE_OTHER

datatype mobile_addrtype = MOBILE_ADDRTYPE_IPV4 | MOBILE_ADDRTYPE_IPV6 | ADDRTYPE_OTHER

record mobile_addr =
  addr_type :: mobile_addrtype
  addr_port :: u32
  addr_host :: "byte list"

record sock_os = os +
  sockets :: "int list"

section \<open>Operations\<close>

text \<open>
  \<open>convert_sockaddr\<close>: the address length (\<open>None\<close> where the code leaves it unset) and the
  converted address (\<open>None\<close> for a null pointer).
\<close>

definition convert_sockaddr :: "mobile_addr option \<Rightarrow> nat option \<times> sockaddr option" where
  "convert_sockaddr addr =
     (case addr of
        None \<Rightarrow> (Some 0, None)
      | Some a \<Rightarrow>
          (case addr_type a of
             MOBILE_ADDRTYPE_IPV4 \<Rightarrow>
               if length (addr_host a) \<noteq> 4 then (None, None)
               else (Some 16, Some (Sockaddr_in (htons (ucast (addr_port a))) (addr_host a)))
           | MOBILE_ADDRTYPE_IPV6 \<Rightarrow>
               if length (addr_host a) \<noteq> 16 then (None, None)
               else (Some 28, Some (Sockaddr_in6 (htons (ucast (addr_port a))) (addr_host a)))
           | ADDRTYPE_OTHER \<Rightarrow> (Some 0, None)))"

definition socket_impl_init :: "nat \<Rightarrow> ('a sock_os_scheme, unit) state" where
  "socket_impl_init max_conn =
     modify (\<lambda>s. s\<lparr>sockets := fold (\<lambda>i xs. xs[i := INVALID_SOCKET]) [0..<max_conn] (sockets s)\<rparr>)"

fun socket_impl_stop_loop :: "os_env \<Rightarrow> nat list \<Rightarrow> ('a sock_os_scheme, unit) state" where
  "socket_impl_stop_loop E [] = State_Monad.return ()"
| "socket_impl_stop_loop E (i # is) = do {
     socks \<leftarrow> gets sockets;
     when_st (socks ! i \<noteq> INVALID_SOCKET) (do {
       _ \<leftarrow> socket_close E (socks ! i);
       State_Monad.return ()
     });
     socket_impl_stop_loop E is
   }"

definition socket_impl_stop :: "os_env \<Rightarrow> nat \<Rightarrow> ('a sock_os_scheme, unit) state" where
  "socket_impl_stop E max_conn = socket_impl_stop_loop E [0..<max_conn]"

fun sock_type_of :: "mobile_socktype \<Rightarrow> socktype option" where
  "sock_type_of MOBILE_SOCKTYPE_TCP = Some SOCK_STREAM"
| "sock_type_of MOBILE_SOCKTYPE_UDP = Some SOCK_DGRAM"
| "sock_type_of SOCKTYPE_OTHER = None"

fun sock_addrtype_of :: "mobile_addrtype \<Rightarrow> af option" where
  "sock_addrtype_of MOBILE_ADDRTYPE_IPV4 = Some AF_INET"
| "sock_addrtype_of MOBILE_ADDRTYPE_IPV6 = Some AF_INET6"
| "sock_addrtype_of ADDRTYPE_OTHER = None"

text \<open>\<open>socket_perror(f); socket_close(sock); return false;\<close>\<close>

definition fail_close :: "os_env \<Rightarrow> string \<Rightarrow> int \<Rightarrow> ('a os_scheme, bool cres) state" where
  "fail_close E f sock = do {
     socket_perror E (Some f);
     _ \<leftarrow> socket_close E sock;
     ret_ok False
   }"

definition bind_addr :: "mobile_addrtype \<Rightarrow> u32 \<Rightarrow> sockaddr" where
  "bind_addr addrtype bindport =
     (if addrtype = MOBILE_ADDRTYPE_IPV4 then Sockaddr_in (htons (ucast bindport)) (replicate 4 0)
      else Sockaddr_in6 (htons (ucast bindport)) (replicate 16 0))"

definition socket_impl_open ::
    "os_env \<Rightarrow> nat \<Rightarrow> mobile_socktype \<Rightarrow> mobile_addrtype \<Rightarrow> u32 \<Rightarrow> ('a sock_os_scheme, bool cres) state" where
  "socket_impl_open E conn type addrtype bindport = do {
     socks \<leftarrow> gets sockets;
     if length socks \<le> conn then abort Out_of_bounds
     else if socks ! conn \<noteq> INVALID_SOCKET then abort Assertion_failed
     else case (sock_type_of type, sock_addrtype_of addrtype) of
       (Some sock_type, Some sock_addrtype) \<Rightarrow> do {
         r \<leftarrow> sys E (Sys_socket sock_addrtype sock_type 0);
         let sock = ret r;
         if sock = INVALID_SOCKET then do {
           socket_perror E (Some ''socket'');
           ret_ok False
         } else do {
           b \<leftarrow> socket_setblocking E sock False;
           if b = - 1 then do {
             _ \<leftarrow> socket_close E sock;
             ret_ok False
           } else do {
             r \<leftarrow> sys E (Sys_setsockopt sock SO_REUSEADDR 1);
             if ret r = SOCKET_ERROR then fail_close E ''setsockopt'' sock
             else do {
               nodelay \<leftarrow> (if type = MOBILE_SOCKTYPE_TCP then do {
                   r \<leftarrow> sys E (Sys_setsockopt sock TCP_NODELAY 1);
                   State_Monad.return (ret r = SOCKET_ERROR)
                 } else State_Monad.return False);
               if nodelay then fail_close E ''setsockopt'' sock
               else do {
                 rc \<leftarrow> sys E (Sys_bind sock (bind_addr addrtype bindport));
                 if ret rc = SOCKET_ERROR then fail_close E ''bind'' sock
                 else do {
                   modify (\<lambda>s. s\<lparr>sockets := (sockets s)[conn := sock]\<rparr>);
                   ret_ok True
                 }
               }
             }
           }
         }
       }
     | _ \<Rightarrow> abort Assertion_failed
   }"

text \<open>\<open>SOCKET sock = state->sockets[conn]; assert(sock != INVALID_SOCKET);\<close>\<close>

definition with_sock :: "nat \<Rightarrow> (int \<Rightarrow> ('a sock_os_scheme, 'b cres) state) \<Rightarrow> ('a sock_os_scheme, 'b cres) state" where
  "with_sock conn f = do {
     socks \<leftarrow> gets sockets;
     if length socks \<le> conn then abort Out_of_bounds
     else if socks ! conn = INVALID_SOCKET then abort Assertion_failed
     else f (socks ! conn)
   }"

definition socket_impl_close :: "os_env \<Rightarrow> nat \<Rightarrow> ('a sock_os_scheme, unit cres) state" where
  "socket_impl_close E conn = with_sock conn (\<lambda>sock. do {
     _ \<leftarrow> socket_close E sock;
     modify (\<lambda>s. s\<lparr>sockets := (sockets s)[conn := INVALID_SOCKET]\<rparr>);
     ret_ok ()
   })"

definition socket_impl_connect :: "os_env \<Rightarrow> nat \<Rightarrow> mobile_addr option \<Rightarrow> ('a sock_os_scheme, int cres) state" where
  "socket_impl_connect E conn addr = with_sock conn (\<lambda>sock. do {
     let (sock_addrlen, sock_addr) = convert_sockaddr addr;
     r \<leftarrow> sys E (Sys_connect sock sock_addr sock_addrlen);
     err \<leftarrow> socket_geterror;
     if ret r \<noteq> SOCKET_ERROR then ret_ok 1
     else if err = SOCKET_EWOULDBLOCK \<or> err = SOCKET_EINPROGRESS \<or> err = SOCKET_EALREADY then ret_ok 0
     else if err = SOCKET_EISCONN then ret_ok 1
     else (case socket_straddr E [] SOCKET_STRADDR_MAXLEN sock_addr of
         Abort f \<Rightarrow> abort f
       | Ret (_, sock_str) \<Rightarrow> do {
           socket_seterror err;
           eprint (''Could not connect ('' @ sock_str @ ''): '');
           socket_perror E None;
           ret_ok (- 1)
         })
   })"

definition socket_impl_listen :: "os_env \<Rightarrow> nat \<Rightarrow> ('a sock_os_scheme, bool cres) state" where
  "socket_impl_listen E conn = with_sock conn (\<lambda>sock. do {
     r \<leftarrow> sys E (Sys_listen sock 1);
     if ret r = SOCKET_ERROR then do {
       socket_perror E (Some ''listen'');
       ret_ok False
     } else ret_ok True
   })"

definition socket_impl_accept :: "os_env \<Rightarrow> nat \<Rightarrow> ('a sock_os_scheme, bool cres) state" where
  "socket_impl_accept E conn = with_sock conn (\<lambda>sock. do {
     h \<leftarrow> socket_hasdata E sock;
     if h \<le> 0 then ret_ok False
     else do {
       r \<leftarrow> sys E (Sys_accept sock);
       if ret r = INVALID_SOCKET then do {
         socket_perror E (Some ''accept'');
         ret_ok False
       } else do {
         b \<leftarrow> socket_setblocking E (ret r) False;
         if b = - 1 then ret_ok False
         else do {
           _ \<leftarrow> socket_close E sock;
           modify (\<lambda>s. s\<lparr>sockets := (sockets s)[conn := ret r]\<rparr>);
           ret_ok True
         }
       }
     }
   })"

text \<open>On a broken connection \<open>sendto\<close> raises \<open>SIGPIPE\<close> as \<open>send\<close> does, see \<open>killed\<close>.\<close>

definition socket_impl_send ::
    "os_env \<Rightarrow> nat \<Rightarrow> byte list \<Rightarrow> mobile_addr option \<Rightarrow> ('a sock_os_scheme, int cres) state" where
  "socket_impl_send E conn data addr = with_sock conn (\<lambda>sock. do {
     let (sock_addrlen, sock_addr) = convert_sockaddr addr;
     len \<leftarrow> sys E (Sys_sendto sock data sock_addr sock_addrlen);
     if ret len = SOCKET_ERROR then do {
       err \<leftarrow> socket_geterror;
       if err = SOCKET_EWOULDBLOCK then ret_ok 0
       else do {
         socket_perror E (Some ''send'');
         ret_ok (- 1)
       }
     } else ret_ok (c_int (ret len))
   })"

text \<open>
  \<open>socket_impl_recv\<close>: \<open>buf\<close>, the size of the buffer, is \<open>None\<close> when the caller passes no buffer (a test for pending
  data), and \<open>addr\<close> is \<open>None\<close> when it passes no address. The result is the returned
  number, the bytes stored in the buffer, and the address struct afterwards.
\<close>

definition store_addr :: "mobile_addr option \<Rightarrow> sockaddr option \<Rightarrow> mobile_addr option" where
  "store_addr addr from =
     (case (addr, from) of
        (Some a, Some (Sockaddr_in p h)) \<Rightarrow>
          Some \<lparr>addr_type = MOBILE_ADDRTYPE_IPV4, addr_port = ucast (ntohs p), addr_host = h\<rparr>
      | (Some a, Some (Sockaddr_in6 p h)) \<Rightarrow>
          Some \<lparr>addr_type = MOBILE_ADDRTYPE_IPV6, addr_port = ucast (ntohs p), addr_host = h\<rparr>
      | _ \<Rightarrow> addr)"

definition socket_impl_recv ::
    "os_env \<Rightarrow> nat \<Rightarrow> nat option \<Rightarrow> mobile_addr option \<Rightarrow>
     ('a sock_os_scheme, (int \<times> byte list \<times> mobile_addr option) cres) state" where
  "socket_impl_recv E conn buf addr = with_sock conn (\<lambda>sock. do {
     h \<leftarrow> socket_hasdata E sock;
     if h \<le> 0 then ret_ok (0, [], addr)
     else do {
       len \<leftarrow> (case buf of
           Some n \<Rightarrow> sys E (Sys_recvfrom sock n False)
         | None \<Rightarrow> sys E (Sys_recvfrom sock 1 True));
       let stored = (if buf = None \<or> ret len = SOCKET_ERROR then [] else rdata len);
       if ret len = SOCKET_ERROR then do {
         err \<leftarrow> socket_geterror;
         if err = SOCKET_EWOULDBLOCK then ret_ok (0, stored, addr)
         else do {
           socket_perror E (Some ''recv'');
           ret_ok (- 1, stored, addr)
         }
       } else do {
         closed \<leftarrow> (if ret len = 0 then do {
             t \<leftarrow> sys E (Sys_getsockopt sock SO_TYPE);
             if ret t = SOCKET_ERROR then do {
               socket_perror E (Some ''getsockopt'');
               State_Monad.return (Some (- 1))
             } else State_Monad.return (if rtype t = SOCK_STREAM then Some (- 2) else None)
           } else State_Monad.return None);
         ret_ok (case closed of
             Some rc \<Rightarrow> (rc, stored, addr)
           | None \<Rightarrow>
               if buf = None then (0, stored, addr)
               else (c_int (ret len), stored, store_addr addr (raddr len)))
       }
     }
   })"

section \<open>Assertions about the descriptors\<close>

text \<open>
  \<open>fds L xs m\<close> describes a state completely as far as this component is concerned: the
  descriptors open are \<open>L\<close>, the table holds \<open>xs\<close>, the memory of the components above is
  \<open>m\<close>, and no call has misused a descriptor. The rules below give the effect of each
  primitive on such assertions, and the operations' specifications follow from them.
\<close>

definition fds :: "int set \<Rightarrow> int list \<Rightarrow> 'a \<Rightarrow> 'a sock_os_scheme \<Rightarrow> bool" where
  "fds L xs m s \<longleftrightarrow>
     live (trace s) = L \<and> sockets s = xs \<and> sock_os.more s = m \<and> trace_ok (trace s)"

lemma more_cong:
  fixes s s' :: "'a sock_os_scheme"
  assumes "os.more s' = os.more s"
  shows "sockets s' = sockets s" and "sock_os.more s' = sock_os.more s"
  using assms by (cases s; cases s'; simp)+

lemmas logged_more [simp] = more_cong [OF more_logged]
lemmas perror_more [simp] = more_cong [OF more_perror]

lemma triple_observer:
  assumes "observer F m" and "F \<subseteq> L"
  shows "triple (fds L xs r) m (\<lambda>_. fds L xs r)"
proof (rule tripleI)
  fix s a s'
  assume "fds L xs r s" and "run_state m s = (a, s')"
  with observerD [OF assms(1), of s a s'] more_cong [of s' s] assms(2)
  show "fds L xs r s'" by (simp add: fds_def)
qed

lemma triple_close:
  "fd \<in> L \<Longrightarrow> triple (fds L xs r) (socket_close E fd) (\<lambda>_. fds (L - {fd}) xs r)"
  by (auto simp: triple_def fds_def socket_close_def)

lemma triple_create:
  assumes "fresh_fds E" and "creates c" and "set (sys_fds c) \<subseteq> L"
  shows "triple (fds L xs r) (sys E c) (\<lambda>q s.
    if ret q = - 1 then fds L xs r s else 0 \<le> ret q \<and> ret q \<notin> L \<and> fds (insert (ret q) L) xs r s)"
proof (rule tripleI)
  fix s q s'
  assume s: "fds L xs r s" and run: "run_state (sys E c) s = (q, s')"
  then have q: "q = reply E (trace s) c" and s': "s' = logged E c s" by auto
  have "live (trace s') = (if ret q = - 1 then L else insert (ret q) L)"
    using s assms(2) q s' by (cases c) (auto simp: fds_def)
  moreover have "trace_ok (trace s')"
    using s assms(3) s' by (simp add: fds_def)
  ultimately show "if ret q = - 1 then fds L xs r s'
      else 0 \<le> ret q \<and> ret q \<notin> L \<and> fds (insert (ret q) L) xs r s'"
    using s fresh_fdsD [OF assms(1,2), of "trace s"] more_cong [of s' s] s' q
    by (simp add: fds_def)
qed

subsection \<open>Verification conditions\<close>

text \<open>
  The same facts as rules on a call followed by the rest of a block; applied from the
  outside in, they leave conditions on descriptor sets only.
\<close>

named_theorems vcs

lemma vc_perror [vcs]:
  "triple (fds L xs r) (f ()) Q \<Longrightarrow> triple (fds L xs r) (State_Monad.bind (socket_perror E t) f) Q"
  by (rule triple_bind [OF triple_observer [OF observer_perror, of "{}"]]) simp_all

lemma vc_eprint [vcs]:
  "triple (fds L xs r) (f ()) Q \<Longrightarrow> triple (fds L xs r) (State_Monad.bind (eprint t) f) Q"
  by (rule triple_bind [OF triple_observer [OF observer_eprint, of "{}"]]) simp_all

lemma vc_seterror [vcs]:
  "triple (fds L xs r) (f ()) Q \<Longrightarrow> triple (fds L xs r) (State_Monad.bind (socket_seterror e) f) Q"
  by (rule triple_bind [OF triple_observer [OF observer_seterror, of "{}"]]) simp_all

lemma vc_geterror [vcs]:
  "(\<And>e. triple (fds L xs r) (f e) Q) \<Longrightarrow> triple (fds L xs r) (State_Monad.bind socket_geterror f) Q"
  by (rule triple_bind [OF triple_observer [OF observer_geterror, of "{}"]]) simp_all

lemma vc_setblocking [vcs]:
  "fd \<in> L \<Longrightarrow> (\<And>b. triple (fds L xs r) (f b) Q) \<Longrightarrow>
   triple (fds L xs r) (State_Monad.bind (socket_setblocking E fd b) f) Q"
  by (rule triple_bind [OF triple_observer [OF observer_setblocking]]) simp_all

lemma vc_hasdata [vcs]:
  "fd \<in> L \<Longrightarrow> (\<And>h. triple (fds L xs r) (f h) Q) \<Longrightarrow>
   triple (fds L xs r) (State_Monad.bind (socket_hasdata E fd) f) Q"
  by (rule triple_bind [OF triple_observer [OF observer_hasdata]]) simp_all

lemma vc_sys:
  "inert c \<Longrightarrow> set (sys_fds c) \<subseteq> L \<Longrightarrow> (\<And>q. triple (fds L xs r) (f q) Q) \<Longrightarrow>
   triple (fds L xs r) (State_Monad.bind (sys E c) f) Q"
  by (rule triple_bind [OF triple_observer [OF observer_sys [OF _ order_refl]]])

lemma vc_close [vcs]:
  "fd \<in> L \<Longrightarrow> (\<And>q. triple (fds (L - {fd}) xs r) (f q) Q) \<Longrightarrow>
   triple (fds L xs r) (State_Monad.bind (socket_close E fd) f) Q"
  by (rule triple_bind [OF triple_close])

lemma vc_create:
  assumes "fresh_fds E" and "creates c" and "set (sys_fds c) \<subseteq> L"
    and "\<And>q. ret q = - 1 \<Longrightarrow> triple (fds L xs r) (f q) Q"
    and "\<And>q. 0 \<le> ret q \<Longrightarrow> ret q \<notin> L \<Longrightarrow> triple (fds (insert (ret q) L) xs r) (f q) Q"
  shows "triple (fds L xs r) (State_Monad.bind (sys E c) f) Q"
proof (rule triple_bind [OF triple_create [OF assms(1-3)]])
  fix q
  show "triple (\<lambda>s. if ret q = - 1 then fds L xs r s
      else 0 \<le> ret q \<and> ret q \<notin> L \<and> fds (insert (ret q) L) xs r s) (f q) Q"
    using assms(4,5) [of q] by (cases "ret q = - 1") (auto simp: triple_def)
qed

lemma vc_set_sockets [vcs]:
  "triple (fds L (g xs) r) (f ()) Q \<Longrightarrow>
   triple (fds L xs r) (State_Monad.bind (modify (\<lambda>s. s\<lparr>sockets := g (sockets s)\<rparr>)) f) Q"
  by (auto simp: triple_def fds_def)

lemma vc_gets_sockets:
  "triple (fds L xs r) (f xs) Q \<Longrightarrow> triple (fds L xs r) (State_Monad.bind (gets sockets) f) Q"
  by (auto simp: triple_def fds_def)

lemma vc_with_sock:
  assumes "conn < length xs" and "xs ! conn \<noteq> INVALID_SOCKET"
    and "triple (fds L xs r) (f (xs ! conn)) Q"
  shows "triple (fds L xs r) (with_sock conn f) Q"
  unfolding with_sock_def by (rule vc_gets_sockets) (use assms in simp)

lemmas [vcs] = triple_return triple_if

lemma run_with_sock:
  "conn < length (sockets s) \<Longrightarrow> sockets s ! conn \<noteq> INVALID_SOCKET \<Longrightarrow>
   run_state (with_sock conn f) s = run_state (f (sockets s ! conn)) s"
  by (simp add: with_sock_def)

section \<open>Specifications of the operations\<close>

lemma fail_close_spec:
  "fd \<in> L \<Longrightarrow> (\<And>s. fds (L - {fd}) xs r s \<Longrightarrow> Q (Ret False) s) \<Longrightarrow> triple (fds L xs r) (fail_close E f fd) Q"
  unfolding fail_close_def by (intro vcs)

text \<open>
  \<open>socket_impl_open\<close> on a free slot: either nothing is left open, or the slot holds a
  new descriptor and nothing else changed.
\<close>

definition opened :: "nat \<Rightarrow> int set \<Rightarrow> int list \<Rightarrow> 'a \<Rightarrow> bool cres \<Rightarrow> 'a sock_os_scheme \<Rightarrow> bool" where
  "opened conn L xs r a s \<longleftrightarrow>
     a = Ret False \<and> fds L xs r s \<or>
     a = Ret True \<and> (\<exists>fd. 0 \<le> fd \<and> fd \<notin> L \<and> fds (insert fd L) (xs[conn := fd]) r s)"

lemma opened_False: "fd \<notin> L \<Longrightarrow> fds (insert fd L - {fd}) xs r s \<Longrightarrow> opened conn L xs r (Ret False) s"
  by (simp add: opened_def)

lemma opened_True:
  "0 \<le> fd \<Longrightarrow> fd \<notin> L \<Longrightarrow> fds (insert fd L) (xs[conn := fd]) r s \<Longrightarrow> opened conn L xs r (Ret True) s"
  by (auto simp: opened_def)

lemma socket_impl_open_spec:
  assumes "fresh_fds E" and "conn < length xs" and "xs ! conn = INVALID_SOCKET"
    and "type \<noteq> SOCKTYPE_OTHER" and "addrtype \<noteq> ADDRTYPE_OTHER"
  shows "triple (fds L xs r) (socket_impl_open E conn type addrtype port) (opened conn L xs r)"
proof -
  obtain ty where ty: "sock_type_of type = Some ty" using assms(4) by (cases type) auto
  obtain af where af: "sock_addrtype_of addrtype = Some af" using assms(5) by (cases addrtype) auto
  note fail = fail_close_spec [OF insertI1] vc_close [OF insertI1]
  have nodelay: "triple (fds (insert fd L) xs r) (State_Monad.bind (if type = MOBILE_SOCKTYPE_TCP then
      State_Monad.bind (sys E (Sys_setsockopt fd TCP_NODELAY 1)) (\<lambda>q. State_Monad.return (ret q = SOCKET_ERROR))
      else State_Monad.return False) f) Q"
    if "\<And>b. triple (fds (insert fd L) xs r) (f b) Q" for fd f Q
    by (rule triple_bind [OF triple_observer [of "{fd}"]])
      (auto intro!: observer_intros that)
  show ?thesis
    unfolding socket_impl_open_def
    apply (rule vc_gets_sockets)
    apply (simp add: assms linorder_not_le [THEN iffD2, OF assms(2)] ty af)
    apply (rule vc_create [OF assms(1)], simp, simp)
     apply (simp add: Let_def, intro vcs, simp add: opened_def)
    apply (unfold Let_def, rule triple_if, simp)
    apply (rule vc_setblocking, simp, rule triple_if)
     apply (intro vcs fail opened_False; assumption)
    apply (rule vc_sys, simp, simp, intro vcs fail opened_False; assumption?)
    apply (rule nodelay, intro vcs fail opened_False; assumption?)
    apply (rule vc_sys, simp, simp, intro vcs fail opened_False; assumption?)
    apply (erule (2) opened_True)
    done
qed

lemma socket_impl_close_spec:
  assumes "conn < length xs" and "xs ! conn \<noteq> INVALID_SOCKET" and "xs ! conn \<in> L"
  shows "triple (fds L xs r) (socket_impl_close E conn) (\<lambda>a s.
    a = Ret () \<and> fds (L - {xs ! conn}) (xs[conn := INVALID_SOCKET]) r s)"
  unfolding socket_impl_close_def
  by (rule vc_with_sock [OF assms(1,2)], intro vcs) (use assms in auto)

lemma socket_impl_listen_spec:
  assumes "conn < length xs" and "xs ! conn \<noteq> INVALID_SOCKET" and "xs ! conn \<in> L"
  shows "triple (fds L xs r) (socket_impl_listen E conn) (\<lambda>a s. (\<exists>b. a = Ret b) \<and> fds L xs r s)"
  unfolding socket_impl_listen_def
  by (rule vc_with_sock [OF assms(1,2)], rule vc_sys) (use assms in \<open>auto intro!: vcs\<close>)

text \<open>
  \<open>socket_impl_connect\<close> answers 1, 0 or -1. It can end the process only when the address
  has no converted form: the report of the failure then reads a null pointer.
\<close>

lemma convert_sockaddr_cases:
  "snd (convert_sockaddr addr) = None \<or>
   (\<exists>p h. snd (convert_sockaddr addr) = Some (Sockaddr_in p h) \<or> snd (convert_sockaddr addr) = Some (Sockaddr_in6 p h))"
  by (auto simp: convert_sockaddr_def split: option.split mobile_addrtype.split)

lemma straddr_Abort: "socket_straddr E res n a = Abort f \<Longrightarrow> a = None"
  by (auto simp: socket_straddr_def Let_def split: option.splits sockaddr.splits if_splits)

lemma socket_impl_connect_spec:
  assumes "conn < length xs" and "xs ! conn \<noteq> INVALID_SOCKET" and "xs ! conn \<in> L"
  shows "triple (fds L xs r) (socket_impl_connect E conn addr) (\<lambda>a s. fds L xs r s \<and>
    ((\<exists>rc \<in> {- 1, 0, 1}. a = Ret rc) \<or> snd (convert_sockaddr addr) = None \<and> (\<exists>f. a = Abort f)))"
proof -
  obtain l sa where c: "convert_sockaddr addr = (l, sa)" by (cases "convert_sockaddr addr")
  show ?thesis
    unfolding socket_impl_connect_def c Let_def prod.case
    by (rule vc_with_sock [OF assms(1,2)], rule vc_sys)
      (use assms straddr_Abort [of E _ _ sa] in \<open>auto intro!: vcs split: cres.split\<close>)
qed

lemma socket_impl_send_spec:
  assumes "conn < length xs" and "xs ! conn \<noteq> INVALID_SOCKET" and "xs ! conn \<in> L"
  shows "triple (fds L xs r) (socket_impl_send E conn data addr) (\<lambda>a s. (\<exists>n. a = Ret n) \<and> fds L xs r s)"
proof -
  obtain l sa where c: "convert_sockaddr addr = (l, sa)" by (cases "convert_sockaddr addr")
  show ?thesis
    unfolding socket_impl_send_def c Let_def prod.case
    by (rule vc_with_sock [OF assms(1,2)], rule vc_sys) (use assms in \<open>auto intro!: vcs\<close>)
qed

lemma socket_impl_recv_spec:
  assumes "conn < length xs" and "xs ! conn \<noteq> INVALID_SOCKET" and "xs ! conn \<in> L"
  shows "triple (fds L xs r) (socket_impl_recv E conn buf addr) (\<lambda>a s. (\<exists>x. a = Ret x) \<and> fds L xs r s)"
proof -
  let ?fd = "xs ! conn"
  have recv: "observer {?fd} (case buf of Some n \<Rightarrow> sys E (Sys_recvfrom ?fd n False)
      | None \<Rightarrow> sys E (Sys_recvfrom ?fd 1 True))"
    by (auto intro!: observer_intros)
  have ty: "observer {?fd} (if n = 0 then State_Monad.bind (sys E (Sys_getsockopt ?fd SO_TYPE)) (\<lambda>t.
      if ret t = SOCKET_ERROR then State_Monad.bind (socket_perror E (Some ''getsockopt''))
        (\<lambda>_. State_Monad.return (Some (- 1)))
      else State_Monad.return (if rtype t = SOCK_STREAM then Some (- 2) else None))
    else State_Monad.return None)" for n :: int
    by (intro observer_intros) simp_all
  have L: "{?fd} \<subseteq> L" using assms(3) by simp
  show ?thesis
    unfolding socket_impl_recv_def Let_def
    apply (rule vc_with_sock [OF assms(1,2)])
    apply (intro vcs assms(3))
     apply simp
    apply (rule triple_bind [OF triple_observer [OF recv L]])
    apply (intro vcs; (rule triple_bind [OF triple_observer [OF ty L]])?)
    apply (auto intro!: vcs split: option.split)
    done
qed

text \<open>
  \<open>socket_impl_accept\<close>: nothing to accept, or the listening socket is exchanged for the
  accepted one. In between lies the path on which the blocking mode of the accepted
  socket cannot be changed: the new descriptor is then neither stored nor closed.
\<close>

lemma setblocking_fcntl_ok:
  "fcntl_ok E \<Longrightarrow> fd \<in> live (trace s) \<Longrightarrow> fst (run_state (socket_setblocking E fd b) s) = 0"
  by (simp add: run_setblocking fcntl_ok_def Let_def)

lemma vc_setblocking_ok:
  assumes "fd \<in> L" and "\<And>b. (fcntl_ok E \<Longrightarrow> b = 0) \<Longrightarrow> triple (fds L xs r) (f b) Q"
  shows "triple (fds L xs r) (State_Monad.bind (socket_setblocking E fd m) f) Q"
proof (rule triple_bind [where R = "\<lambda>b s. (fcntl_ok E \<longrightarrow> b = 0) \<and> fds L xs r s"])
  have "triple (fds L xs r) (socket_setblocking E fd m) (\<lambda>_. fds L xs r)"
    by (rule triple_observer [OF observer_setblocking]) (simp add: assms(1))
  then show "triple (fds L xs r) (socket_setblocking E fd m) (\<lambda>b s. (fcntl_ok E \<longrightarrow> b = 0) \<and> fds L xs r s)"
    using assms(1) by (intro tripleI conjI impI) (metis fst_conv setblocking_fcntl_ok fds_def, metis tripleD)
qed (use assms(2) in \<open>auto simp: triple_def\<close>)

definition accepted :: "bool \<Rightarrow> nat \<Rightarrow> int set \<Rightarrow> int list \<Rightarrow> 'a \<Rightarrow> bool cres \<Rightarrow> 'a sock_os_scheme \<Rightarrow> bool" where
  "accepted leak conn L xs r a s \<longleftrightarrow>
     a = Ret False \<and> fds L xs r s \<or>
     a = Ret False \<and> leak \<and> (\<exists>fd. 0 \<le> fd \<and> fd \<notin> L \<and> fds (insert fd L) xs r s) \<or>
     a = Ret True \<and> (\<exists>fd. 0 \<le> fd \<and> fd \<notin> L \<and> fds (insert fd (L - {xs ! conn})) (xs[conn := fd]) r s)"

lemma socket_impl_accept_spec:
  assumes "fresh_fds E"
    and "conn < length xs" and "xs ! conn \<noteq> INVALID_SOCKET" and "xs ! conn \<in> L"
  shows "triple (fds L xs r) (socket_impl_accept E conn) (accepted (\<not> fcntl_ok E) conn L xs r)"
proof -
  have swap: "insert fd L - {xs ! conn} = insert fd (L - {xs ! conn})" if "fd \<notin> L" for fd
    using that assms(4) by auto
  show ?thesis
    unfolding socket_impl_accept_def
    apply (rule vc_with_sock [OF assms(2,3)])
    apply (rule vc_hasdata [OF assms(4)], rule triple_if)
     apply (rule triple_return, simp add: accepted_def)
    apply (rule vc_create [OF assms(1)], simp, simp add: assms(4))
     apply (simp, intro vcs, simp add: accepted_def)
    apply (rule triple_if, simp)
    apply (rule vc_setblocking_ok, simp)
    apply (rule triple_if)
     apply (rule triple_return, auto simp: accepted_def)[1]
    apply (rule vc_close, simp add: assms(4))
    apply (intro vcs)
    apply (auto simp: accepted_def swap)
    done
qed

subsection \<open>Setting the table up and closing it\<close>

lemma fold_fill: "n \<le> length xs \<Longrightarrow> fold (\<lambda>i xs. xs[i := v]) [0..<n] xs = replicate n v @ drop n xs"
proof (induction n)
  case (Suc n)
  then have "(replicate n v @ drop n xs)[n := v] = replicate n v @ v # drop (Suc n) xs"
    by (simp add: list_update_append Cons_nth_drop_Suc [symmetric])
  with Suc show ?case by (simp add: replicate_append_same)
qed simp

lemma socket_impl_init_spec:
  "length xs = n \<Longrightarrow> triple (fds L xs r) (socket_impl_init n) (\<lambda>_. fds L (replicate n INVALID_SOCKET) r)"
  unfolding socket_impl_init_def by (auto simp: triple_def fds_def fold_fill)

lemma socket_impl_stop_loop_spec:
  assumes "\<And>i. i \<in> set is \<Longrightarrow> i < length xs" and "distinct is"
    and "\<And>i. i \<in> set is \<Longrightarrow> xs ! i \<noteq> INVALID_SOCKET \<Longrightarrow> xs ! i \<in> L"
    and "\<And>i j. i \<in> set is \<Longrightarrow> j \<in> set is \<Longrightarrow> xs ! i = xs ! j \<Longrightarrow> xs ! i \<noteq> INVALID_SOCKET \<Longrightarrow> i = j"
  shows "triple (fds L xs r) (socket_impl_stop_loop E is)
    (\<lambda>_. fds (L - ((!) xs ` set is - {INVALID_SOCKET})) xs r)"
  using assms
proof (induction "is" arbitrary: L)
  case Nil
  show ?case by (simp add: triple_return)
next
  case (Cons i "is")
  show ?case
  proof (cases "xs ! i = INVALID_SOCKET")
    case True
    have "triple (fds L xs r) (socket_impl_stop_loop E is)
        (\<lambda>_. fds (L - ((!) xs ` set is - {INVALID_SOCKET})) xs r)"
      using Cons.prems by (intro Cons.IH) auto
    with True show ?thesis
      by (auto intro!: vc_gets_sockets simp: when_st_def insert_Diff_if)
  next
    case False
    let ?L = "L - {xs ! i}"
    have sep: "xs ! j \<noteq> xs ! i" if "j \<in> set is" for j
      using that False Cons.prems(2) by (metis Cons.prems(4) distinct.simps(2) list.set_intros)
    have "triple (fds ?L xs r) (socket_impl_stop_loop E is)
        (\<lambda>_. fds (?L - ((!) xs ` set is - {INVALID_SOCKET})) xs r)"
      using Cons.prems sep by (intro Cons.IH) auto
    moreover have "?L - ((!) xs ` set is - {INVALID_SOCKET}) = L - ((!) xs ` set (i # is) - {INVALID_SOCKET})"
      using False by auto
    moreover have "xs ! i \<in> L" using Cons.prems(3) [of i] False by simp
    ultimately show ?thesis
      using False by (auto intro!: vc_gets_sockets vc_close simp: when_st_def)
  qed
qed

section \<open>The table as a set of open connections\<close>

text \<open>
  The invariant of the table. Of the open descriptors \<open>L\<close>, the set \<open>B\<close> belongs to others
  (the link to the emulator); every used slot holds an open descriptor outside \<open>B\<close>, and
  no two slots share one. With \<open>exact\<close>, nothing else is open: no descriptor has leaked.
\<close>

definition open_conns :: "int list \<Rightarrow> nat set" where
  "open_conns xs = {i. i < length xs \<and> xs ! i \<noteq> INVALID_SOCKET}"

definition slots :: "int list \<Rightarrow> int set" where
  "slots xs = (!) xs ` open_conns xs"

definition table_ok :: "nat \<Rightarrow> int set \<Rightarrow> int set \<Rightarrow> int list \<Rightarrow> bool" where
  "table_ok n B L xs \<longleftrightarrow>
     length xs = n \<and> B \<subseteq> L \<and> slots xs \<subseteq> L - B \<and> (\<forall>fd \<in> L. 0 \<le> fd) \<and>
     inj_on ((!) xs) (open_conns xs)"

definition table ::
    "os_env \<Rightarrow> bool \<Rightarrow> nat \<Rightarrow> int set \<Rightarrow> 'a \<Rightarrow> nat set \<Rightarrow> 'a sock_os_scheme \<Rightarrow> bool" where
  "table E exact n B r C s \<longleftrightarrow>
     fresh_fds E \<and> (\<exists>L xs. fds L xs r s \<and> table_ok n B L xs \<and> open_conns xs = C \<and>
       (exact \<longrightarrow> fcntl_ok E \<and> L = B \<union> slots xs))"

lemma table_triple:
  assumes "\<And>L xs. fresh_fds E \<Longrightarrow> table_ok n B L xs \<Longrightarrow> open_conns xs = C \<Longrightarrow>
    (exact \<Longrightarrow> fcntl_ok E \<and> L = B \<union> slots xs) \<Longrightarrow> triple (fds L xs r) m Q"
  shows "triple (table E exact n B r C) m Q"
  unfolding triple_def table_def
proof (intro allI impI, elim conjE exE)
  fix s L xs
  assume *: "fresh_fds E" "fds L xs r s" "table_ok n B L xs" "open_conns xs = C"
    "exact \<longrightarrow> fcntl_ok E \<and> L = B \<union> slots xs"
  from assms [of L xs] * have "triple (fds L xs r) m Q" by blast
  with *(2) show "case run_state m s of (a, s') \<Rightarrow> Q a s'" by (simp add: triple_def)
qed

lemma tableI:
  "fresh_fds E \<Longrightarrow> fds L xs r s \<Longrightarrow> table_ok n B L xs \<Longrightarrow> open_conns xs = C \<Longrightarrow>
   (exact \<Longrightarrow> fcntl_ok E \<and> L = B \<union> slots xs) \<Longrightarrow> table E exact n B r C s"
  by (auto simp: table_def)

lemma open_conns_update:
  "i < length xs \<Longrightarrow>
   open_conns (xs[i := v]) = (if v = INVALID_SOCKET then open_conns xs - {i} else insert i (open_conns xs))"
  by (auto simp: open_conns_def nth_list_update split: if_splits)

lemma slots_update:
  assumes "i < length xs"
  shows "slots (xs[i := v]) = (!) xs ` (open_conns xs - {i}) \<union> (if v = INVALID_SOCKET then {} else {v})"
proof -
  have "(!) (xs[i := v]) ` (open_conns xs - {i}) = (!) xs ` (open_conns xs - {i})"
    by (intro image_cong) auto
  then show ?thesis
    using assms by (auto simp: slots_def open_conns_update insert_Diff_if image_iff nth_list_update split: if_splits)
qed

lemma slots_others:
  assumes "table_ok n B L xs"
  shows "(!) xs ` (open_conns xs - {i}) = (if i \<in> open_conns xs then slots xs - {xs ! i} else slots xs)"
  using assms unfolding table_ok_def slots_def
  by (auto simp: inj_on_image_set_diff [where C = "open_conns xs" and B = "{i}"] inj_on_def)

lemma table_ok_update:
  assumes "table_ok n B L xs" and "i < n" and "v = INVALID_SOCKET \<or> 0 \<le> v \<and> v \<notin> L"
    and "L' = (if i \<in> open_conns xs then L - {xs ! i} else L) \<union> (if v = INVALID_SOCKET then {} else {v})"
  shows "table_ok n B L' (xs[i := v])"
    and "L = B \<union> slots xs \<Longrightarrow> L' = B \<union> slots (xs[i := v])"
proof -
  have i: "i < length xs" using assms(1,2) by (simp add: table_ok_def)
  note S = slots_update [OF i, of v] slots_others [OF assms(1), of i]
  have notB: "i \<in> open_conns xs \<Longrightarrow> xs ! i \<notin> B"
    using assms(1) by (auto simp: table_ok_def slots_def)
  have "inj_on ((!) (xs[i := v])) (open_conns (xs[i := v]))"
    using assms(1,3) i by (auto simp: open_conns_update inj_on_def nth_list_update table_ok_def slots_def)
  moreover have "slots (xs[i := v]) \<subseteq> L' - B"
    using assms(1,3) by (auto simp: S assms(4) table_ok_def)
  ultimately show "table_ok n B L' (xs[i := v])"
    using assms notB by (auto simp: table_ok_def)
  show "L = B \<union> slots xs \<Longrightarrow> L' = B \<union> slots (xs[i := v])"
    using notB assms(4) by (auto simp: S)
qed

lemma table_ok_slot:
  assumes "table_ok n B L xs" and "conn \<in> open_conns xs"
  shows "conn < length xs" and "xs ! conn \<noteq> INVALID_SOCKET" and "xs ! conn \<in> L"
  using assms by (auto simp: table_ok_def open_conns_def slots_def)

text \<open>Each operation moves the table from one set of open connections to the next.\<close>

lemma table_opened:
  assumes "fresh_fds E" and "table_ok n B L xs" and "exact \<Longrightarrow> fcntl_ok E \<and> L = B \<union> slots xs"
    and "conn < n" and "conn \<notin> open_conns xs" and "opened conn L xs r a s"
  shows "\<exists>b. a = Ret b \<and> table E exact n B r (if b then insert conn (open_conns xs) else open_conns xs) s"
  using assms(6) unfolding opened_def
proof (elim disjE conjE exE)
  assume "a = Ret False" and "fds L xs r s"
  then show ?thesis using assms(1-3) by (intro exI [of _ False]) (auto intro: tableI)
next
  fix fd
  assume a: "a = Ret True" and fd: "0 \<le> fd" "fd \<notin> L" and s: "fds (insert fd L) (xs[conn := fd]) r s"
  note U = table_ok_update [OF assms(2,4), of fd "insert fd L"]
  have "conn < length xs" using assms(2,4) by (simp add: table_ok_def)
  then have "table E exact n B r (insert conn (open_conns xs)) s"
    using U fd assms(3,5) by (intro tableI [OF assms(1) s]) (auto simp: open_conns_update)
  with a show ?thesis by (intro exI [of _ True]) simp
qed

lemma table_exchanged:
  assumes "fresh_fds E" and "table_ok n B L xs" and "exact \<Longrightarrow> fcntl_ok E \<and> L = B \<union> slots xs"
    and "conn \<in> open_conns xs" and "0 \<le> fd" and "fd \<notin> L"
    and "fds (insert fd (L - {xs ! conn})) (xs[conn := fd]) r s"
  shows "table E exact n B r (open_conns xs) s"
proof -
  have i: "conn < length xs" and n: "conn < n"
    using table_ok_slot(1) [OF assms(2,4)] assms(2) by (auto simp: table_ok_def)
  note U = table_ok_update [OF assms(2) n, of fd "insert fd (L - {xs ! conn})"]
  show ?thesis
    using U assms(3-6) i by (intro tableI [OF assms(1,7)]) (auto simp: open_conns_update)
qed

lemma table_leaked:
  assumes "fresh_fds E" and "table_ok n B L xs" and "fd \<notin> L" and "0 \<le> fd"
    and "fds (insert fd L) xs r s"
  shows "table E False n B r (open_conns xs) s"
  using assms(2-4) by (intro tableI [OF assms(1,5)]) (auto simp: table_ok_def)

lemma table_accepted:
  assumes "fresh_fds E" and "table_ok n B L xs" and "exact \<Longrightarrow> fcntl_ok E \<and> L = B \<union> slots xs"
    and "conn \<in> open_conns xs" and "accepted (\<not> fcntl_ok E) conn L xs r a s"
  shows "returns a \<and> table E exact n B r (open_conns xs) s"
  using assms(5) unfolding accepted_def
proof (elim disjE conjE exE)
  assume "a = Ret False" and "fds L xs r s"
  then show ?thesis using assms(1-3) by (auto intro: tableI)
next
  fix fd
  assume "a = Ret False" and "\<not> fcntl_ok E" and "0 \<le> fd" "fd \<notin> L" and "fds (insert fd L) xs r s"
  then show ?thesis
    using table_leaked [OF assms(1,2)] assms(3) by (cases exact) auto
next
  fix fd
  assume "a = Ret True" and "0 \<le> fd" "fd \<notin> L" and "fds (insert fd (L - {xs ! conn})) (xs[conn := fd]) r s"
  then show ?thesis
    using table_exchanged [OF assms(1-4)] by simp
qed

lemma table_closed:
  assumes "fresh_fds E" and "table_ok n B L xs" and "exact \<Longrightarrow> fcntl_ok E \<and> L = B \<union> slots xs"
    and "conn \<in> open_conns xs" and "fds (L - {xs ! conn}) (xs[conn := INVALID_SOCKET]) r s"
  shows "table E exact n B r (open_conns xs - {conn}) s"
proof -
  have i: "conn < length xs" and n: "conn < n"
    using table_ok_slot(1) [OF assms(2,4)] assms(2) by (auto simp: table_ok_def)
  note U = table_ok_update [OF assms(2) n, of INVALID_SOCKET "L - {xs ! conn}"]
  show ?thesis
    using U assms(3,4) i by (intro tableI [OF assms(1,5)]) (auto simp: open_conns_update)
qed

lemma table_kept:
  assumes "conn \<in> C"
    and "\<And>xs L. conn < length xs \<Longrightarrow> xs ! conn \<noteq> INVALID_SOCKET \<Longrightarrow> xs ! conn \<in> L \<Longrightarrow>
      triple (fds L xs r) m (\<lambda>a s. P a \<and> fds L xs r s)"
  shows "triple (table E exact n B r C) m (\<lambda>a s. P a \<and> table E exact n B r C s)"
proof (rule table_triple)
  fix L xs
  assume t: "fresh_fds E" "table_ok n B L xs" "open_conns xs = C" "exact \<Longrightarrow> fcntl_ok E \<and> L = B \<union> slots xs"
  with assms(1) have c: "conn \<in> open_conns xs" by simp
  show "triple (fds L xs r) m (\<lambda>a s. P a \<and> table E exact n B r C s)"
    by (rule triple_conseq [OF assms(2) [OF table_ok_slot [OF t(2) c]]])
      (use t in \<open>auto intro: tableI\<close>)
qed

subsection \<open>The interface libmobile's callbacks rely on\<close>

text \<open>
  A table of numbered connections, seen through the set of the numbers in use:
  \<open>tab C\<close> holds of the states in which exactly the connections \<open>C\<close> are open. The laws say
  which calls are allowed in which state, that an allowed call returns (it does not end
  the process), and which connections are open afterwards.
\<close>

locale conn_table =
  fixes tab :: "nat set \<Rightarrow> 's \<Rightarrow> bool"
    and max_conn :: nat
    and t_open :: "nat \<Rightarrow> mobile_socktype \<Rightarrow> mobile_addrtype \<Rightarrow> u32 \<Rightarrow> ('s, bool cres) state"
    and t_close :: "nat \<Rightarrow> ('s, unit cres) state"
    and t_connect :: "nat \<Rightarrow> mobile_addr option \<Rightarrow> ('s, int cres) state"
    and t_listen :: "nat \<Rightarrow> ('s, bool cres) state"
    and t_accept :: "nat \<Rightarrow> ('s, bool cres) state"
    and t_send :: "nat \<Rightarrow> byte list \<Rightarrow> mobile_addr option \<Rightarrow> ('s, int cres) state"
    and t_recv :: "nat \<Rightarrow> nat option \<Rightarrow> mobile_addr option \<Rightarrow>
          ('s, (int \<times> byte list \<times> mobile_addr option) cres) state"
  assumes bound: "tab C s \<Longrightarrow> C \<subseteq> {..<max_conn}"
    and open_law: "conn < max_conn \<Longrightarrow> conn \<notin> C \<Longrightarrow> type \<noteq> SOCKTYPE_OTHER \<Longrightarrow> addrtype \<noteq> ADDRTYPE_OTHER \<Longrightarrow>
      triple (tab C) (t_open conn type addrtype port)
        (\<lambda>a s. \<exists>b. a = Ret b \<and> tab (if b then insert conn C else C) s)"
    and close_law: "conn \<in> C \<Longrightarrow> triple (tab C) (t_close conn) (\<lambda>a s. a = Ret () \<and> tab (C - {conn}) s)"
    and connect_law: "conn \<in> C \<Longrightarrow> snd (convert_sockaddr addr) \<noteq> None \<Longrightarrow>
      triple (tab C) (t_connect conn addr) (\<lambda>a s. (\<exists>rc \<in> {- 1, 0, 1}. a = Ret rc) \<and> tab C s)"
    and listen_law: "conn \<in> C \<Longrightarrow> triple (tab C) (t_listen conn) (\<lambda>a s. returns a \<and> tab C s)"
    and accept_law: "conn \<in> C \<Longrightarrow> triple (tab C) (t_accept conn) (\<lambda>a s. returns a \<and> tab C s)"
    and send_law: "conn \<in> C \<Longrightarrow> triple (tab C) (t_send conn data addr) (\<lambda>a s. returns a \<and> tab C s)"
    and recv_law: "conn \<in> C \<Longrightarrow> triple (tab C) (t_recv conn buf addr) (\<lambda>a s. returns a \<and> tab C s)"
begin

text \<open>A connection that was opened can be closed, and then opened again.\<close>

lemma open_close:
  assumes "conn < max_conn" and "conn \<notin> C" and "type \<noteq> SOCKTYPE_OTHER" and "addrtype \<noteq> ADDRTYPE_OTHER"
  shows "triple (tab C) (andthen (t_open conn type addrtype port)
      (\<lambda>b. if b then t_close conn else ret_ok ())) (\<lambda>a s. a = Ret () \<and> tab C s)"
proof (rule triple_andthen [OF open_law [OF assms]])
  fix b
  show "triple (\<lambda>s. \<exists>b'. Ret b = Ret b' \<and> tab (if b' then insert conn C else C) s)
      (if b then t_close conn else ret_ok ()) (\<lambda>a s. a = Ret () \<and> tab C s)"
    using close_law [of conn "insert conn C"] assms(2)
    by (cases b) (auto simp: triple_def)
qed auto

end

interpretation sockets_table: conn_table "table E exact n B r" n
  "socket_impl_open E" "socket_impl_close E" "socket_impl_connect E" "socket_impl_listen E"
  "socket_impl_accept E" "socket_impl_send E" "socket_impl_recv E"
  for E exact n B r
proof (unfold_locales, goal_cases)
  case (1 C s)
  then show ?case by (auto simp: table_def table_ok_def open_conns_def)
next
  case (2 conn C type addrtype port)
  show ?case
  proof (rule table_triple)
    fix L xs
    assume t: "fresh_fds E" "table_ok n B L xs" "open_conns xs = C" "exact \<Longrightarrow> fcntl_ok E \<and> L = B \<union> slots xs"
    then have i: "conn < length xs" "xs ! conn = INVALID_SOCKET" and o: "conn \<notin> open_conns xs"
      using 2(1,2) by (auto simp: table_ok_def open_conns_def)
    have "\<exists>b. a = Ret b \<and> table E exact n B r (if b then insert conn C else C) s"
      if "opened conn L xs r a s" for a s
      using table_opened [OF t(1,2,4) 2(1) o that] t(3) by blast
    then show "triple (fds L xs r) (socket_impl_open E conn type addrtype port)
        (\<lambda>a s. \<exists>b. a = Ret b \<and> table E exact n B r (if b then insert conn C else C) s)"
      by (intro triple_conseq [OF socket_impl_open_spec [OF t(1) i 2(3,4)]])
  qed
next
  case (3 conn C)
  show ?case
    by (rule table_triple, rule triple_conseq [OF socket_impl_close_spec])
      (use 3 in \<open>auto dest: table_ok_slot intro: table_closed\<close>)
next
  case (4 conn C addr)
  show ?case
    by (rule table_kept [OF 4(1)], rule triple_conseq [OF socket_impl_connect_spec]) (use 4(2) in auto)
next
  case (5 conn C)
  show ?case
    by (rule table_kept [OF 5], rule triple_conseq [OF socket_impl_listen_spec]) auto
next
  case (6 conn C)
  show ?case
    by (rule table_triple, rule triple_conseq [OF socket_impl_accept_spec])
      (use 6 in \<open>auto dest: table_ok_slot table_accepted\<close>)
next
  case (7 conn C data addr)
  show ?case
    by (rule table_kept [OF 7], rule triple_conseq [OF socket_impl_send_spec]) auto
next
  case (8 conn C buf addr)
  show ?case
    by (rule table_kept [OF 8], rule triple_conseq [OF socket_impl_recv_spec]) auto
qed

end
