(* ===== verification/Socket_Contract.thy ===== *)
theory Socket_Contract
  imports Socket_Impl
begin

text \<open>
  What the connection table of \<open>source/socket_impl.c\<close> promises: ownership of descriptors
  on every path of every operation, the meaning of the numbers the operations return,
  the exchange of addresses with libmobile, and the two places where the code falls
  short of its purpose.
\<close>

section \<open>Opening a connection\<close>

text \<open>A table with two free slots, and an environment in which every call succeeds.\<close>

definition table_lab :: sock_os where
  "table_lab = \<lparr>trace = [], errno = 0, stderr = [], sockets = [- 1, - 1]\<rparr>"

definition calm_lab :: os_env where
  "calm_lab = lab_env (\<lambda>_ _. ok_ret)"

lemma fresh_calm: "fresh_fds calm_lab"
  unfolding calm_lab_def by (rule fresh_fds_lab_env)

text \<open>C7.
  \<open>socket_impl_open\<close> on a free slot either returns false with the table and the set of
  open descriptors exactly as before (whatever step failed, the new socket is closed
  again), or returns true with one new descriptor, stored in that slot and nowhere else.
  Every system call on the way names open descriptors only.
\<close>

theorem socket_impl_open_owns:
  assumes "fresh_fds E" and "conn < length (sockets s)" and "sockets s ! conn = INVALID_SOCKET"
    and "type \<noteq> SOCKTYPE_OTHER" and "addrtype \<noteq> ADDRTYPE_OTHER" and "trace_ok (trace s)"
    and "run_state (socket_impl_open E conn type addrtype port) s = (a, s')"
  shows "trace_ok (trace s') \<and>
    (a = Ret False \<and> sockets s' = sockets s \<and> live (trace s') = live (trace s) \<or>
     a = Ret True \<and> (\<exists>fd. 0 \<le> fd \<and> fd \<notin> live (trace s) \<and>
       sockets s' = (sockets s)[conn := fd] \<and> live (trace s') = insert fd (live (trace s))))"
proof -
  have "fds (live (trace s)) (sockets s) (sock_os.more s) s"
    using assms(6) by (simp add: fds_def)
  with tripleD [OF socket_impl_open_spec [OF assms(1-5)] _ assms(7)]
  show ?thesis by (auto simp: opened_def fds_def)
qed

theorem socket_impl_open_owns_witness:
  "result (socket_impl_open calm_lab 1 MOBILE_SOCKTYPE_TCP MOBILE_ADDRTYPE_IPV4 1027) table_lab = Ret True \<and>
   (\<exists>fd. sockets (exec (socket_impl_open calm_lab 1 MOBILE_SOCKTYPE_TCP MOBILE_ADDRTYPE_IPV4 1027) table_lab) = [- 1, fd] \<and>
     live (trace (exec (socket_impl_open calm_lab 1 MOBILE_SOCKTYPE_TCP MOBILE_ADDRTYPE_IPV4 1027) table_lab)) = {fd})"
proof -
  have r: "result (socket_impl_open calm_lab 1 MOBILE_SOCKTYPE_TCP MOBILE_ADDRTYPE_IPV4 1027) table_lab = Ret True"
    by code_simp
  show ?thesis
    using r socket_impl_open_owns [OF fresh_calm _ _ _ _ _ run_state_pair, of 1 table_lab
        MOBILE_SOCKTYPE_TCP MOBILE_ADDRTYPE_IPV4 1027]
    by (auto simp: table_lab_def)
qed

text \<open>
  The system's name of a kind of socket, and the wildcard address of a family with a
  port: the port is kept in network order, its high byte first.
\<close>

definition kind_of_socket :: "mobile_socktype \<Rightarrow> socktype \<Rightarrow> bool" where
  "kind_of_socket type ty \<longleftrightarrow>
     type = MOBILE_SOCKTYPE_TCP \<and> ty = SOCK_STREAM \<or> type = MOBILE_SOCKTYPE_UDP \<and> ty = SOCK_DGRAM"

definition wildcard :: "mobile_addrtype \<Rightarrow> u32 \<Rightarrow> af \<Rightarrow> sockaddr \<Rightarrow> bool" where
  "wildcard addrtype port af a \<longleftrightarrow> (\<exists>p.
     (ucast p :: byte) = ucast (drop_bit 8 port) \<and> (ucast (drop_bit 8 p) :: byte) = ucast port \<and>
     (addrtype = MOBILE_ADDRTYPE_IPV4 \<and> af = AF_INET \<and> a = Sockaddr_in p [0, 0, 0, 0] \<or>
      addrtype = MOBILE_ADDRTYPE_IPV6 \<and> af = AF_INET6 \<and>
        a = Sockaddr_in6 p [0, 0, 0, 0, 0, 0, 0, 0, 0, 0, 0, 0, 0, 0, 0, 0]))"

lemma network_order:
  fixes port :: u32
  shows "(ucast (htons (ucast port)) :: byte) = ucast (drop_bit 8 port)"
    and "(ucast (drop_bit 8 (htons (ucast port))) :: byte) = ucast port"
  by (auto simp: bit_ucast_iff bit_htons bit_drop_bit_eq add.commute intro!: bit_eqI)

lemma bind_addr_wildcard:
  assumes "sock_addrtype_of addrtype = Some af"
  shows "wildcard addrtype port af (bind_addr addrtype port)"
proof -
  have "replicate 4 0 = [0, 0, 0, 0 :: byte]" "replicate 16 0 = [0, 0, 0, 0, 0, 0, 0, 0, 0, 0, 0, 0, 0, 0, 0, 0 :: byte]"
    by (simp_all add: numeral_eq_Suc)
  then show ?thesis
    using assms by (cases addrtype) (auto simp: wildcard_def bind_addr_def network_order intro!: exI [of _ "htons (ucast port)"])
qed

text \<open>C21.
  The calls a successful \<open>socket_impl_open\<close> makes, in order: a socket of the requested
  family and kind, the change to non-blocking mode, address reuse, \<open>TCP_NODELAY\<close> for
  TCP sockets only, and the bind to the requested port (its low 16 bits, high byte
  first) at the wildcard address of the family. The socket is stored in the slot.
\<close>

theorem socket_impl_open_calls:
  assumes "run_state (socket_impl_open E conn type addrtype port) s = (Ret True, s')"
  shows "\<exists>af ty a fd fl. kind_of_socket type ty \<and> wildcard addrtype port af a \<and>
    sockets s' = (sockets s)[conn := fd] \<and> bit fl 11 \<and>
    map fst (trace s') =
      Sys_bind fd a #
      (if ty = SOCK_STREAM then [Sys_setsockopt fd TCP_NODELAY 1] else []) @
      [Sys_setsockopt fd SO_REUSEADDR 1, Sys_fcntl_setfl fd fl, Sys_fcntl_getfl fd, Sys_socket af ty 0] @
      map fst (trace s)"
proof -
  have "length (sockets s) > conn" "sockets s ! conn = INVALID_SOCKET"
    using assms by (auto simp: socket_impl_open_def split: if_splits)
  moreover obtain af ty where t: "sock_addrtype_of addrtype = Some af" "sock_type_of type = Some ty"
    using assms by (auto simp: socket_impl_open_def split: if_splits option.splits)
  moreover have "run_state (fail_close E f fd) t \<noteq> (Ret True, t')" for f fd and t t' :: "'a sock_os_scheme"
    by (simp add: fail_close_def split: prod.split)
  ultimately obtain fd fl where "sockets s' = (sockets s)[conn := fd]" "bit fl 11"
    "map fst (trace s') =
      Sys_bind fd (bind_addr addrtype port) #
      (if type = MOBILE_SOCKTYPE_TCP then [Sys_setsockopt fd TCP_NODELAY 1] else []) @
      [Sys_setsockopt fd SO_REUSEADDR 1, Sys_fcntl_setfl fd fl, Sys_fcntl_getfl fd, Sys_socket af ty 0] @
      map fst (trace s)"
    using assms bit_new_flags [of False _ 11]
    by (auto simp: socket_impl_open_def run_setblocking Let_def socket_close_def split: if_splits prod.splits)
  moreover have "kind_of_socket type ty" "type = MOBILE_SOCKTYPE_TCP \<longleftrightarrow> ty = SOCK_STREAM"
    using t(2) by (cases type; auto simp: kind_of_socket_def)+
  ultimately show ?thesis
    using bind_addr_wildcard [OF t(1), of port]
    by (intro exI [of _ af] exI [of _ ty] exI [of _ "bind_addr addrtype port"] exI [of _ fd] exI [of _ fl]) simp
qed

theorem socket_impl_open_calls_witness:
  "\<exists>a fd fl. wildcard MOBILE_ADDRTYPE_IPV6 53 AF_INET6 a \<and> bit fl 11 \<and>
    map fst (trace (exec (socket_impl_open calm_lab 0 MOBILE_SOCKTYPE_UDP MOBILE_ADDRTYPE_IPV6 53) table_lab)) =
      [Sys_bind fd a, Sys_setsockopt fd SO_REUSEADDR 1,
       Sys_fcntl_setfl fd fl, Sys_fcntl_getfl fd, Sys_socket AF_INET6 SOCK_DGRAM 0]"
proof -
  let ?m = "socket_impl_open calm_lab 0 MOBILE_SOCKTYPE_UDP MOBILE_ADDRTYPE_IPV6 53"
  have "result ?m table_lab = Ret True" by code_simp
  then have "run_state ?m table_lab = (Ret True, exec ?m table_lab)"
    by (simp add: run_state_pair)
  from socket_impl_open_calls [OF this] show ?thesis
    by (auto simp: table_lab_def kind_of_socket_def wildcard_def)
qed

section \<open>Accepting a connection\<close>

text \<open>C9.
  When \<open>socket_impl_accept\<close> reports a connection, the listening socket is closed and the
  slot holds the accepted one, a descriptor that was not open before; otherwise the
  table is as it was. The other open descriptors are the same as before in both cases.
  The hypothesis \<open>fcntl_ok\<close> (the flags of an open descriptor can be read and written)
  is needed for this.
\<close>

theorem socket_impl_accept_exchanges:
  assumes "fresh_fds E" and "fcntl_ok E" and "conn < length (sockets s)"
    and "sockets s ! conn \<in> live (trace s)" and "sockets s ! conn \<noteq> INVALID_SOCKET" and "trace_ok (trace s)"
    and "run_state (socket_impl_accept E conn) s = (a, s')"
  shows "trace_ok (trace s') \<and>
    (a = Ret False \<and> sockets s' = sockets s \<and> live (trace s') = live (trace s) \<or>
     a = Ret True \<and> (\<exists>fd. 0 \<le> fd \<and> fd \<notin> live (trace s) \<and> sockets s' = (sockets s)[conn := fd] \<and>
       live (trace s') = insert fd (live (trace s) - {sockets s ! conn})))"
proof -
  have "fds (live (trace s)) (sockets s) (sock_os.more s) s"
    using assms(6) by (simp add: fds_def)
  with tripleD [OF socket_impl_accept_spec [OF assms(1,3,5,4)] _ assms(7)] assms(2)
  show ?thesis by (auto simp: accepted_def fds_def)
qed

text \<open>A listening socket in slot 0 with a pending connection.\<close>

definition accept_lab :: os_env where
  "accept_lab = lab_env (\<lambda>_ c. case c of Sys_poll _ _ \<Rightarrow> ok_ret\<lparr>ret := 1\<rparr> | _ \<Rightarrow> ok_ret)"

definition listening :: sock_os where
  "listening = table_lab\<lparr>trace := [(Sys_socket AF_INET SOCK_STREAM 0, ok_ret\<lparr>ret := 7\<rparr>)], sockets := [7, - 1]\<rparr>"

theorem socket_impl_accept_exchanges_witness:
  "result (socket_impl_accept accept_lab 0) listening = Ret True \<and>
   (\<exists>fd. fd \<noteq> 7 \<and> sockets (exec (socket_impl_accept accept_lab 0) listening) = [fd, - 1] \<and>
     live (trace (exec (socket_impl_accept accept_lab 0) listening)) = {fd})"
proof -
  have f: "fresh_fds accept_lab" unfolding accept_lab_def by (rule fresh_fds_lab_env)
  have k: "fcntl_ok accept_lab" by (simp add: fcntl_ok_def accept_lab_def lab_env_def ok_ret_def)
  have r: "result (socket_impl_accept accept_lab 0) listening = Ret True" by code_simp
  show ?thesis
    using r socket_impl_accept_exchanges [OF f k _ _ _ _ run_state_pair, of 0 listening]
    by (auto simp: listening_def table_lab_def ok_ret_def)
qed

text \<open>C34.
  The path on which an accepted socket is lost: when the connection is accepted but its
  blocking mode cannot be changed, \<open>socket_impl_accept\<close> returns false and keeps the
  listening socket, and the accepted descriptor stays open although no slot holds it.
\<close>

theorem socket_impl_accept_leaks:
  assumes "fresh_fds E" and "conn < length (sockets s)" and "sockets s ! conn = fd" and "fd \<noteq> INVALID_SOCKET"
    and "slots (sockets s) \<subseteq> live (trace s)"
    and "poll = Sys_poll [(fd, [POLLIN, POLLPRI])] 0" and "0 < ret (reply E (trace s) poll)"
    and "new = ret (reply E ((poll, reply E (trace s) poll) # trace s) (Sys_accept fd))" and "new \<noteq> INVALID_SOCKET"
    and "\<forall>tr. ret (reply E tr (Sys_fcntl_getfl new)) = - 1"
  shows "result (socket_impl_accept E conn) s = Ret False \<and>
    sockets (exec (socket_impl_accept E conn) s) = sockets s \<and>
    new \<in> live (trace (exec (socket_impl_accept E conn) s)) \<and> new \<notin> slots (sockets s)"
proof -
  have "new \<notin> live (trace s)"
    using fresh_fdsD [OF assms(1), of "Sys_accept fd" "(poll, reply E (trace s) poll) # trace s"] assms(6,8,9)
    by simp
  moreover have "run_state (socket_impl_accept E conn) s =
      (Ret False, snd (run_state (perror E ''fcntl'')
        (logged E (Sys_fcntl_getfl new) (logged E (Sys_accept fd) (logged E poll s)))))"
    using assms(2-4,7,9,10) assms(8) [symmetric] unfolding assms(6)
    by (simp add: socket_impl_accept_def with_sock_def socket_hasdata_def run_setblocking Let_def)
  ultimately show ?thesis
    using assms(5,9) assms(8) [symmetric] unfolding assms(6)
    by (auto simp: result_def exec_def trace_perror)
qed

theorem socket_impl_accept_leaks_witness:
  "\<exists>new. new \<in> live (trace (exec (socket_impl_accept (accept_lab\<lparr>reply := (\<lambda>tr c. case c of
       Sys_fcntl_getfl _ \<Rightarrow> ok_ret\<lparr>ret := - 1\<rparr> | _ \<Rightarrow> reply accept_lab tr c)\<rparr>) 0) listening)) \<and>
     new \<notin> slots (sockets listening)"
proof -
  let ?E = "accept_lab\<lparr>reply := (\<lambda>tr c. case c of
       Sys_fcntl_getfl _ \<Rightarrow> ok_ret\<lparr>ret := - 1\<rparr> | _ \<Rightarrow> reply accept_lab tr c)\<rparr>"
  have "fresh_fds ?E"
    using fresh_fds_lab_env [of "\<lambda>_ c. case c of Sys_poll _ _ \<Rightarrow> ok_ret\<lparr>ret := 1\<rparr> | _ \<Rightarrow> ok_ret"]
    by (auto simp: fresh_fds_def accept_lab_def split: syscall.splits)
  moreover have "slots (sockets listening) \<subseteq> live (trace listening)"
    by (auto simp: listening_def table_lab_def slots_def open_conns_def ok_ret_def less_Suc_eq)
  ultimately show ?thesis
    using socket_impl_accept_leaks [of ?E 0 listening 7 _ 8]
    by (auto simp: listening_def table_lab_def ok_ret_def accept_lab_def lab_env_def)
qed

section \<open>Connecting\<close>

text \<open>C22.
  The answers of \<open>socket_impl_connect\<close> for an address it can convert: 1 when the system
  connected or says the socket already is, 0 when the connection is under way, and -1
  for every other error, which is left in \<open>errno\<close> after it has been reported. The table
  and the open descriptors stay as they are.
\<close>

theorem socket_impl_connect_answers:
  assumes "conn < length (sockets s)" and "sockets s ! conn \<noteq> INVALID_SOCKET"
    and "convert_sockaddr addr = (len, Some sa)"
    and "r = reply E (trace s) (Sys_connect (sockets s ! conn) (Some sa) len)"
    and "run_state (socket_impl_connect E conn addr) s = (a, s')"
  shows "a = Ret (if ret r \<noteq> SOCKET_ERROR then 1
      else if err r \<in> {SOCKET_EWOULDBLOCK, SOCKET_EINPROGRESS, SOCKET_EALREADY} then 0
      else if err r = SOCKET_EISCONN then 1 else - 1) \<and>
    errno s' = (if ret r < 0 then err r else errno s) \<and>
    trace s' = (Sys_connect (sockets s ! conn) (Some sa) len, r) # trace s \<and> os.more s' = os.more s"
proof -
  obtain str where str: "socket_straddr E [] SOCKET_STRADDR_MAXLEN (Some sa) = Ret str"
    using straddr_Abort [of E "[]" SOCKET_STRADDR_MAXLEN "Some sa"]
    by (cases "socket_straddr E [] SOCKET_STRADDR_MAXLEN (Some sa)") auto
  obtain m t where st: "str = (m, t)" by (cases str)
  let ?c = "Sys_connect (sockets s ! conn) (Some sa) len"
  let ?s1 = "logged E ?c s"
  have "run_state (socket_impl_connect E conn addr) s =
     (if ret r \<noteq> SOCKET_ERROR then (Ret 1, ?s1)
      else if err r \<in> {SOCKET_EWOULDBLOCK, SOCKET_EINPROGRESS, SOCKET_EALREADY} then (Ret 0, ?s1)
      else if err r = SOCKET_EISCONN then (Ret 1, ?s1)
      else (Ret (- 1), snd (run_state (socket_perror E None)
        (?s1\<lparr>errno := err r, stderr := stderr s @ ''Could not connect ('' @ t @ ''): ''\<rparr>))))"
    unfolding socket_impl_connect_def run_with_sock [OF assms(1,2)]
    by (simp add: assms(3) str st assms(4) errno_logged split: prod.split)
  then show ?thesis
    using assms(5) by (auto simp: errno_logged assms(4) split: if_splits)
qed

definition any_addr :: mobile_addr where
  "any_addr = \<lparr>addr_type = MOBILE_ADDRTYPE_IPV4, addr_port = 80, addr_host = [10, 0, 0, 1]\<rparr>"

theorem socket_impl_connect_answers_witness:
  "result (socket_impl_connect (lab_env (\<lambda>_ c. case c of
      Sys_connect _ _ _ \<Rightarrow> ok_ret\<lparr>ret := - 1, err := 115\<rparr> | _ \<Rightarrow> ok_ret)) 0 (Some any_addr)) listening = Ret 0"
proof -
  let ?E = "lab_env (\<lambda>_ c. case c of Sys_connect _ _ _ \<Rightarrow> ok_ret\<lparr>ret := - 1, err := 115\<rparr> | _ \<Rightarrow> ok_ret)"
  have "convert_sockaddr (Some any_addr) = (Some 16, Some (Sockaddr_in (htons 80) [10, 0, 0, 1]))"
    by (simp add: convert_sockaddr_def any_addr_def)
  from socket_impl_connect_answers [OF _ _ this refl run_state_pair, of 0 listening ?E]
  show ?thesis by (simp add: listening_def table_lab_def lab_env_def ok_ret_def)
qed

text \<open>C35.
  An address of a kind the program does not know converts to a null pointer. When the
  system then refuses the connection, \<open>socket_impl_connect\<close> prints the address it does
  not have: the process ends with a null pointer access instead of returning -1.
\<close>

theorem socket_impl_connect_null_address:
  assumes "conn < length (sockets s)" and "sockets s ! conn \<noteq> INVALID_SOCKET"
    and "addr_type addr = ADDRTYPE_OTHER"
    and "r = reply E (trace s) (Sys_connect (sockets s ! conn) None (Some 0))" and "ret r = SOCKET_ERROR"
    and "err r \<notin> {SOCKET_EWOULDBLOCK, SOCKET_EINPROGRESS, SOCKET_EALREADY, SOCKET_EISCONN}"
  shows "result (socket_impl_connect E conn (Some addr)) s = Abort Null_dereference"
  unfolding result_def socket_impl_connect_def run_with_sock [OF assms(1,2)]
  using assms(3-6) by (simp add: convert_sockaddr_def socket_straddr_def errno_logged)

theorem socket_impl_connect_null_address_witness:
  "result (socket_impl_connect (lab_env (\<lambda>_ c. case c of
      Sys_connect _ _ _ \<Rightarrow> ok_ret\<lparr>ret := - 1, err := 14\<rparr> | _ \<Rightarrow> ok_ret)) 0
      (Some (any_addr\<lparr>addr_type := ADDRTYPE_OTHER\<rparr>))) listening = Abort Null_dereference"
  by (rule socket_impl_connect_null_address [OF _ _ _ refl])
    (simp_all add: listening_def table_lab_def lab_env_def ok_ret_def)

section \<open>Addresses\<close>

text \<open>
  Addresses go out through \<open>convert_sockaddr\<close> and come back through the last lines of
  \<open>socket_impl_recv\<close>; on the addresses with a known kind, a host of the right length and a
  16-bit port the two are inverse to each other.
\<close>

definition known_host :: "mobile_addr \<Rightarrow> bool" where
  "known_host a \<longleftrightarrow>
     addr_type a = MOBILE_ADDRTYPE_IPV4 \<and> length (addr_host a) = 4 \<or>
     addr_type a = MOBILE_ADDRTYPE_IPV6 \<and> length (addr_host a) = 16"

definition good_addr :: "mobile_addr \<Rightarrow> bool" where
  "good_addr a \<longleftrightarrow> known_host a \<and> unat (addr_port a) < 2 ^ 16"

fun host_ok :: "sockaddr \<Rightarrow> bool" where
  "host_ok (Sockaddr_in _ h) \<longleftrightarrow> length h = 4"
| "host_ok (Sockaddr_in6 _ h) \<longleftrightarrow> length h = 16"
| "host_ok Sockaddr_other = False"

definition read_addr :: "sockaddr option \<Rightarrow> mobile_addr option" where
  "read_addr sa = (case sa of None \<Rightarrow> None | Some a \<Rightarrow> if host_ok a then store_addr (Some any_addr) sa else None)"

lemma ucast_port: "unat p < 2 ^ 16 \<Longrightarrow> ucast (ucast (p :: u32) :: u16) = p"
  by (simp add: word_unat_eq_iff unsigned_ucast_eq unsigned_take_bit_eq take_bit_nat_eq_self)

interpretation addr_format: wire_format good_addr "\<lambda>a. snd (convert_sockaddr (Some a))" read_addr
proof
  fix a
  assume "good_addr a"
  then show "read_addr (snd (convert_sockaddr (Some a))) = Some a"
    by (cases a) (auto simp: good_addr_def known_host_def convert_sockaddr_def read_addr_def store_addr_def ucast_port)
next
  fix sa a
  assume "read_addr sa = Some a"
  moreover have "unat (ucast (p :: u16) :: u32) < 65536" for p
    using unsigned_less [of p, where ?'a = nat] by (simp add: unsigned_ucast_eq take_bit_nat_eq_self)
  moreover have "ucast (ucast (p :: u16) :: u32) = p" for p
    by (rule ucast_up_ucast_id) (simp add: is_up)
  ultimately show "good_addr a \<and> snd (convert_sockaddr (Some a)) = sa"
    by (auto simp: good_addr_def known_host_def convert_sockaddr_def read_addr_def store_addr_def
        split: option.splits if_splits sockaddr.splits)
qed

text \<open>C23.
  An address libmobile passes out and the address a datagram from that peer reports back
  are the same, for IPv4 and IPv6; and every address reported back converts to the
  peer's socket address again. Both directions go through the network byte order of the
  port.
\<close>

theorem addresses_round_trip:
  "(good_addr a \<longrightarrow> read_addr (snd (convert_sockaddr (Some a))) = Some a) \<and>
   (read_addr sa = Some a \<longrightarrow> good_addr a \<and> snd (convert_sockaddr (Some a)) = sa)"
  using addr_format.dec_enc [of a] addr_format.enc_dec [of sa a] by blast

theorem addresses_round_trip_witness:
  "read_addr (snd (convert_sockaddr (Some any_addr))) = Some any_addr \<and>
   snd (convert_sockaddr (Some any_addr)) = Some (Sockaddr_in (htons 80) [10, 0, 0, 1])"
  using addresses_round_trip [of any_addr "Some (Sockaddr_in (htons 80) [10, 0, 0, 1])"]
  by (simp add: good_addr_def known_host_def any_addr_def convert_sockaddr_def)

section \<open>Receiving and sending\<close>

text \<open>The calls a receive makes and their answers.\<close>

definition recv_call :: "int \<Rightarrow> nat option \<Rightarrow> syscall" where
  "recv_call fd buf = (case buf of Some n \<Rightarrow> Sys_recvfrom fd n False | None \<Rightarrow> Sys_recvfrom fd 1 True)"

lemma run_recv:
  assumes "conn < length (sockets s)" and "sockets s ! conn = fd" and "fd \<noteq> INVALID_SOCKET"
    and "poll = Sys_poll [(fd, [POLLIN, POLLPRI])] 0" and "c = recv_call fd buf"
    and "p = reply E (trace s) poll" and "q = reply E ((poll, p) # trace s) c"
    and "t = reply E ((c, q) # (poll, p) # trace s) (Sys_getsockopt fd SO_TYPE)"
    and "stored = (if buf = None then [] else rdata q)"
    and "run_state (socket_impl_recv E conn buf addr) s = (a, s')"
  shows "(a, trace s') =
     (if ret p \<le> 0 then (Ret (0, [], addr), (poll, p) # trace s)
      else if ret q = SOCKET_ERROR
      then (Ret (if err q = SOCKET_EWOULDBLOCK then 0 else - 1, [], addr), (c, q) # (poll, p) # trace s)
      else if ret q = 0 \<and> (ret t = SOCKET_ERROR \<or> rtype t = SOCK_STREAM)
      then (Ret (if ret t = SOCKET_ERROR then - 1 else - 2, stored, addr),
            (Sys_getsockopt fd SO_TYPE, t) # (c, q) # (poll, p) # trace s)
      else (Ret (if buf = None then (0, stored, addr) else (c_int (ret q), stored, store_addr addr (raddr q))),
            (if ret q = 0 then [(Sys_getsockopt fd SO_TYPE, t)] else []) @ (c, q) # (poll, p) # trace s))"
proof -
  have rc: "(case buf of None \<Rightarrow> sys E (Sys_recvfrom fd 1 True) | Some n \<Rightarrow> sys E (Sys_recvfrom fd n False)) = sys E c"
    by (simp add: assms(5) recv_call_def split: option.split)
  have fst_snd: "(a, trace s') = (fst (run_state (socket_impl_recv E conn buf addr) s),
      trace (snd (run_state (socket_impl_recv E conn buf addr) s)))"
    by (simp add: assms(10))
  have ok: "conn < length (sockets s)" "sockets s ! conn \<noteq> INVALID_SOCKET" using assms(1-3) by auto
  show ?thesis
    unfolding fst_snd socket_impl_recv_def run_with_sock [OF ok] assms(2) Let_def rc
    by (cases buf) (simp_all add: socket_hasdata_def assms(4) [symmetric] assms(6) [symmetric]
        assms(7) [symmetric] assms(8) [symmetric] assms(9) errno_logged)
qed

lemma recv_keeps_memory:
  assumes "run_state (socket_impl_recv E conn buf addr) s = (Ret x, s')"
  shows "os.more s' = os.more s"
  using assms
  by (auto simp: socket_impl_recv_def with_sock_def socket_hasdata_def Let_def split: if_splits option.splits)

text \<open>C20.
  With a buffer of \<open>n\<close> bytes, \<open>socket_impl_recv\<close> stores at most \<open>n\<close> bytes and returns their
  number; a negative answer stores nothing, is -1 or -2, and -2 is given only when a
  stream socket delivered zero bytes, that is when the peer has closed it. In every case
  the connection table, the rest of the program's memory and the set of open
  descriptors are as before.
\<close>

theorem socket_impl_recv_bounds:
  assumes "io_bounds E" and "n < 2 ^ 31"
    and "run_state (socket_impl_recv E conn (Some n) addr) s = (Ret (rc, data, addr'), s')"
  shows "length data \<le> n \<and> (if rc < 0 then data = [] \<and> rc \<in> {- 1, - 2} else rc = int (length data)) \<and>
    (rc = - 2 \<longrightarrow> (\<exists>t q fd tr. trace s' = (Sys_getsockopt fd SO_TYPE, t) # (Sys_recvfrom fd n False, q) # tr \<and>
       ret q = 0 \<and> rtype t = SOCK_STREAM)) \<and>
    sockets s' = sockets s \<and> os.more s' = os.more s \<and> live (trace s') = live (trace s)"
proof -
  let ?fd = "sockets s ! conn"
  let ?poll = "Sys_poll [(?fd, [POLLIN, POLLPRI])] 0"
  let ?tr = "(?poll, reply E (trace s) ?poll) # trace s"
  let ?q = "reply E ?tr (Sys_recvfrom ?fd n False)"
  have B: "ret ?q = - 1 \<or> ret ?q = int (length (rdata ?q)) \<and> length (rdata ?q) \<le> n"
    using assms(1) by (auto simp: io_bounds_def)
  have c: "ret ?q \<noteq> - 1 \<Longrightarrow> c_int (ret ?q) = ret ?q"
    using B assms(2) by (intro c_int_id) auto
  have ok: "conn < length (sockets s)" "?fd \<noteq> INVALID_SOCKET"
    using assms(3) by (auto simp: socket_impl_recv_def with_sock_def split: if_splits)
  note R = run_recv [OF ok(1) refl ok(2) refl refl refl refl refl refl assms(3)]
  from R have "live (trace s') = live (trace s)" by (auto simp: recv_call_def split: if_splits)
  moreover note recv_keeps_memory [OF assms(3)] more_cong(1) [OF recv_keeps_memory [OF assms(3)]]
  ultimately show ?thesis using R B c by (auto simp: recv_call_def split: if_splits)
qed

definition recv_lab :: os_env where
  "recv_lab = lab_env (\<lambda>_ c. case c of
      Sys_poll _ _ \<Rightarrow> ok_ret\<lparr>ret := 1\<rparr>
    | Sys_recv _ n \<Rightarrow> ok_ret\<lparr>ret := int (min n 2), rdata := take n [65, 66]\<rparr>
    | Sys_recvfrom _ n _ \<Rightarrow> ok_ret\<lparr>ret := int (min n 2), rdata := take n [65, 66]\<rparr>
    | _ \<Rightarrow> ok_ret)"

theorem socket_impl_recv_bounds_witness:
  "io_bounds recv_lab \<and>
   result (socket_impl_recv recv_lab 0 (Some 16) None) listening = Ret (2, [65, 66], None) \<and>
   length [65, 66 :: byte] \<le> 16 \<and>
   sockets (exec (socket_impl_recv recv_lab 0 (Some 16) None) listening) = [7, - 1]"
proof -
  have b: "io_bounds recv_lab"
    by (auto simp: io_bounds_def recv_lab_def lab_env_def ok_ret_def)
  have r: "result (socket_impl_recv recv_lab 0 (Some 16) None) listening = Ret (2, [65, 66], None)"
    by code_simp
  then have "run_state (socket_impl_recv recv_lab 0 (Some 16) None) listening =
      (Ret (2, [65, 66], None), exec (socket_impl_recv recv_lab 0 (Some 16) None) listening)"
    by (simp add: run_state_pair)
  from socket_impl_recv_bounds [OF b _ this] b r show ?thesis by (simp add: listening_def)
qed

text \<open>C29.
  Asking whether data is pending (a receive without a buffer) takes nothing from the
  stream: the only receiving call it makes is a peek at one byte, it stores no bytes and
  no address, and its answer is 0, -1, or -2 for a closed stream.
\<close>

theorem socket_impl_recv_probe:
  assumes "run_state (socket_impl_recv E conn None addr) s = (Ret (rc, data, addr'), s')"
  shows "data = [] \<and> addr' = addr \<and> rc \<in> {0, - 1, - 2} \<and>
    (\<exists>evs. trace s' = evs @ trace s \<and> (\<forall>(c, r) \<in> set evs. \<forall>fd n. c \<noteq> Sys_recvfrom fd n False \<and> c \<noteq> Sys_recv fd n))"
proof -
  let ?fd = "sockets s ! conn"
  have ok: "conn < length (sockets s)" "?fd \<noteq> INVALID_SOCKET"
    using assms by (auto simp: socket_impl_recv_def with_sock_def split: if_splits)
  from run_recv [OF ok(1) refl ok(2) refl refl refl refl refl refl assms]
  show ?thesis by (auto simp: recv_call_def split: if_splits)
qed

theorem socket_impl_recv_probe_witness:
  "result (socket_impl_recv recv_lab 0 None (Some any_addr)) listening = Ret (0, [], Some any_addr)"
proof -
  have "\<exists>x. result (socket_impl_recv recv_lab 0 None (Some any_addr)) listening = Ret (0, x)"
    by (rule exI [of _ "([], Some any_addr)"]) code_simp
  then obtain data addr' where
    r: "result (socket_impl_recv recv_lab 0 None (Some any_addr)) listening = Ret (0, data, addr')"
    by auto
  then have "run_state (socket_impl_recv recv_lab 0 None (Some any_addr)) listening =
      (Ret (0, data, addr'), exec (socket_impl_recv recv_lab 0 None (Some any_addr)) listening)"
    by (simp add: run_state_pair)
  from socket_impl_recv_probe [OF this] r show ?thesis by simp
qed

text \<open>C30.
  A send offers the whole buffer to the system once, with the converted address, and
  reports how much was taken: the number of bytes, which is at most the size, 0 when the
  socket would block, and -1 for every other error.
\<close>

theorem socket_impl_send_answers:
  assumes "io_bounds E" and "length data < 2 ^ 31" and "conn < length (sockets s)"
    and "sockets s ! conn \<noteq> INVALID_SOCKET" and "convert_sockaddr addr = (len, sa)"
    and "c = Sys_sendto (sockets s ! conn) data sa len" and "r = reply E (trace s) c"
  shows "trace (exec (socket_impl_send E conn data addr) s) = (c, r) # trace s \<and>
    (\<exists>n. result (socket_impl_send E conn data addr) s = Ret n \<and> n \<le> int (length data) \<and>
      n = (if ret r \<noteq> SOCKET_ERROR then ret r else if err r = SOCKET_EWOULDBLOCK then 0 else - 1))"
proof -
  have "- 1 \<le> ret r \<and> ret r \<le> int (length data)"
    using assms(1,6,7) by (auto simp: io_bounds_def)
  then have "c_int (ret r) = ret r" and "ret r \<le> int (length data)"
    using assms(2) by (auto intro: c_int_id)
  then show ?thesis
    unfolding result_def exec_def socket_impl_send_def run_with_sock [OF assms(3,4)]
    by (simp add: assms(5) assms(6) [symmetric] assms(7) [symmetric] errno_logged)
qed

theorem socket_impl_send_answers_witness:
  "\<exists>n. result (socket_impl_send recv_lab 0 [1, 2, 3] None) listening = Ret n \<and> n \<le> 3"
proof -
  have b: "io_bounds recv_lab"
    by (auto simp: io_bounds_def recv_lab_def lab_env_def ok_ret_def)
  have c: "convert_sockaddr None = (Some 0, None)" by (simp add: convert_sockaddr_def)
  from socket_impl_send_answers [OF b _ _ _ c refl refl, of "[1, 2, 3]" 0 listening]
  show ?thesis by (auto simp: listening_def table_lab_def)
qed

section \<open>The table as a whole\<close>

lemma stop_spec:
  assumes "table_ok n B L xs"
  shows "triple (fds L xs r) (socket_impl_stop E n) (\<lambda>_. fds (L - slots xs) xs r)"
proof -
  have n: "length xs = n" using assms by (simp add: table_ok_def)
  have "slots xs = (!) xs ` set [0..<n] - {INVALID_SOCKET}"
    using n by (auto simp: slots_def open_conns_def)
  moreover have "triple (fds L xs r) (socket_impl_stop_loop E [0..<n])
      (\<lambda>_. fds (L - ((!) xs ` set [0..<n] - {INVALID_SOCKET})) xs r)"
    using assms n
    by (intro socket_impl_stop_loop_spec) (auto simp: table_ok_def slots_def open_conns_def inj_on_def)
  ultimately show ?thesis by (simp add: socket_impl_stop_def)
qed

text \<open>C17.
  Stopping the table closes every connection once: afterwards the open descriptors are
  those that were open before, less the ones the table held. When nothing has leaked,
  exactly the descriptors of others remain.
\<close>

theorem socket_impl_stop_closes_all:
  assumes "table E exact n B r C s" and "run_state (socket_impl_stop E n) s = (u, s')"
  shows "live (trace s') = live (trace s) - slots (sockets s) \<and> B \<subseteq> live (trace s') \<and>
    trace_ok (trace s') \<and> (exact \<longrightarrow> live (trace s') = B)"
proof -
  from assms(1) obtain L xs where f: "fds L xs r s" and t: "table_ok n B L xs"
    and e: "exact \<longrightarrow> L = B \<union> slots xs"
    by (auto simp: table_def)
  from tripleD [OF stop_spec [OF t] f assms(2)] f t e show ?thesis
    by (auto simp: fds_def table_ok_def)
qed

lemma table_listening: "table accept_lab True 2 {} () {0} listening"
proof -
  have oc: "open_conns [7, - 1] = {0}" by (auto simp: open_conns_def less_Suc_eq nth_Cons')
  then have sl: "slots [7, - 1] = {7}" by (simp add: slots_def)
  have t: "table_ok 2 {} {7} [7, - 1]" by (simp add: table_ok_def oc sl)
  have f: "fresh_fds accept_lab" unfolding accept_lab_def by (rule fresh_fds_lab_env)
  have k: "fcntl_ok accept_lab" by (simp add: fcntl_ok_def accept_lab_def lab_env_def ok_ret_def)
  have s: "fds {7} [7, - 1] () listening"
    by (simp add: fds_def listening_def table_lab_def ok_ret_def)
  show ?thesis by (rule tableI [OF f s t oc]) (simp add: k sl)
qed

theorem socket_impl_stop_closes_all_witness:
  "live (trace (exec (socket_impl_stop accept_lab 2) listening)) = {}"
  using socket_impl_stop_closes_all [OF table_listening run_state_pair] by blast

text \<open>
  The initial table has a free slot for every connection number, whatever the memory
  held before.
\<close>

theorem socket_impl_init_free:
  assumes "length (sockets s) = n"
  shows "sockets (exec (socket_impl_init n) s) = replicate n INVALID_SOCKET \<and>
    open_conns (sockets (exec (socket_impl_init n) s)) = {}"
  using assms by (simp add: exec_def socket_impl_init_def fold_fill open_conns_def)

theorem socket_impl_init_free_witness:
  "sockets (exec (socket_impl_init 2) listening) = [- 1, - 1]"
  using socket_impl_init_free [of listening 2] by (simp add: listening_def numeral_2_eq_2)

end
