(* ===== verification/Bgb_Link.thy ===== *)
theory Bgb_Link
  imports Socket
begin

text \<open>
  The link to the BGB emulator, \<open>source/bgblink.c\<close> and \<open>source/bgblink.h\<close>: the 8-byte
  packets, the handshake, and the loop that answers one packet of the emulator. The
  callbacks of \<open>struct bgb_state\<close> are functions on the program's memory (what the \<open>user\<close>
  pointer leads to); the transfer callback runs libmobile code and may end the process.
\<close>

section \<open>Packets\<close>

record bgb_packet =
  cmd :: byte
  b2 :: byte
  b3 :: byte
  b4 :: byte
  timestamp :: u32

abbreviation BGB_STATUS_RUNNING :: byte where "BGB_STATUS_RUNNING \<equiv> 1"
abbreviation BGB_STATUS_PAUSED :: byte where "BGB_STATUS_PAUSED \<equiv> 2"
abbreviation BGB_STATUS_SUPPORTRECONNECT :: byte where "BGB_STATUS_SUPPORTRECONNECT \<equiv> 4"

definition BGB_CMD_VERSION :: byte where "BGB_CMD_VERSION = 1"
definition BGB_CMD_JOYPAD :: byte where "BGB_CMD_JOYPAD = 101"
definition BGB_CMD_SYNC1 :: byte where "BGB_CMD_SYNC1 = 104"
definition BGB_CMD_SYNC2 :: byte where "BGB_CMD_SYNC2 = 105"
definition BGB_CMD_SYNC3 :: byte where "BGB_CMD_SYNC3 = 106"
definition BGB_CMD_STATUS :: byte where "BGB_CMD_STATUS = 108"
definition BGB_CMD_WANTDISCONNECT :: byte where "BGB_CMD_WANTDISCONNECT = 109"

lemmas bgb_cmds = BGB_CMD_VERSION_def BGB_CMD_JOYPAD_def BGB_CMD_SYNC1_def BGB_CMD_SYNC2_def
  BGB_CMD_SYNC3_def BGB_CMD_STATUS_def BGB_CMD_WANTDISCONNECT_def

text \<open>
  The packed struct in memory, on a little-endian host: \<open>packet_bytes\<close> is what the cast to
  \<open>char *\<close> in \<open>bgb_send\<close> and \<open>memcmp\<close> read, \<open>packet_of_bytes\<close> what \<open>recv\<close> leaves in the struct.
\<close>

definition packet_bytes :: "bgb_packet \<Rightarrow> byte list" where
  "packet_bytes p = [cmd p, b2 p, b3 p, b4 p] @ le_bytes (timestamp p)"

fun packet_of_bytes :: "byte list \<Rightarrow> bgb_packet option" where
  "packet_of_bytes [c, x2, x3, x4, t0, t1, t2, t3] =
     Some \<lparr>cmd = c, b2 = x2, b3 = x3, b4 = x4, timestamp = le_word t0 t1 t2 t3\<rparr>"
| "packet_of_bytes _ = None"

definition handshake :: bgb_packet where
  "handshake = \<lparr>cmd = BGB_CMD_VERSION, b2 = 1, b3 = 4, b4 = 0, timestamp = 0\<rparr>"

definition sizeof_packet :: nat where
  "sizeof_packet = 8"

section \<open>Operations\<close>

text \<open>
  \<open>send\<close> is made without \<open>MSG_NOSIGNAL\<close>: on a broken connection \<open>SIGPIPE\<close> kills the process before
  the code goes on, which \<open>killed\<close> accounts for.
\<close>

definition bgb_send :: "os_env \<Rightarrow> int \<Rightarrow> bgb_packet \<Rightarrow> ('a os_scheme, bool) state" where
  "bgb_send E socket buf = do {
     num \<leftarrow> sys E (Sys_send socket (packet_bytes buf));
     if ret num = - 1 then do {
       socket_perror E (Some ''bgb_send'');
       State_Monad.return False
     } else State_Monad.return (ret num = int sizeof_packet)
   }"

text \<open>\<open>None\<close> is the result false; the packet is then not used.\<close>

definition bgb_recv :: "os_env \<Rightarrow> int \<Rightarrow> ('a os_scheme, bgb_packet option) state" where
  "bgb_recv E socket = do {
     num \<leftarrow> sys E (Sys_recv socket sizeof_packet);
     if ret num = - 1 then do {
       socket_perror E (Some ''bgb_recv'');
       State_Monad.return None
     } else State_Monad.return (if ret num = int sizeof_packet then packet_of_bytes (rdata num) else None)
   }"

record 's bgb_state =
  bgb_socket :: int
  bgb_byte :: byte
  callback_transfer :: "(byte \<Rightarrow> ('s, byte cres) state) option"
  callback_timestamp :: "(u32 \<Rightarrow> ('s, unit) state) option"
  timestamp_last :: u32
  timestamp_init :: bool

definition status_packet :: "byte \<Rightarrow> u32 \<Rightarrow> bgb_packet" where
  "status_packet st t = \<lparr>cmd = BGB_CMD_STATUS, b2 = st, b3 = 0, b4 = 0, timestamp = t\<rparr>"

definition bgb_init ::
    "os_env \<Rightarrow> int \<Rightarrow> byte \<Rightarrow> (byte \<Rightarrow> ('a os_scheme, byte cres) state) option \<Rightarrow>
     (u32 \<Rightarrow> ('a os_scheme, unit) state) option \<Rightarrow>
     ('a os_scheme, bool \<times> 'a os_scheme bgb_state) state" where
  "bgb_init E socket init_byte transfer timestamp_cb = do {
     let state = \<lparr>bgb_socket = socket, bgb_byte = init_byte, callback_transfer = transfer,
       callback_timestamp = timestamp_cb, timestamp_last = 0, timestamp_init = False\<rparr>;
     ok \<leftarrow> bgb_send E socket handshake;
     if \<not> ok then State_Monad.return (False, state)
     else do {
       r \<leftarrow> bgb_recv E socket;
       case r of
         None \<Rightarrow> State_Monad.return (False, state)
       | Some packet \<Rightarrow>
           if packet_bytes packet \<noteq> packet_bytes handshake then do {
             eprint (''bgb_loop: Invalid handshake'' @ newline);
             State_Monad.return (False, state)
           } else do {
             ok \<leftarrow> bgb_send E socket (status_packet
               (BGB_STATUS_RUNNING OR BGB_STATUS_PAUSED OR BGB_STATUS_SUPPORTRECONNECT) 0);
             if \<not> ok then State_Monad.return (False, state)
             else do {
               r \<leftarrow> bgb_recv E socket;
               case r of
                 None \<Rightarrow> State_Monad.return (False, state)
               | Some packet \<Rightarrow>
                   if cmd packet \<noteq> BGB_CMD_STATUS then do {
                     eprint (''bgb_init: unexpected packet (1)'' @ newline);
                     State_Monad.return (False, state)
                   } else do {
                     ok \<leftarrow> bgb_send E socket (status_packet
                       (BGB_STATUS_RUNNING OR BGB_STATUS_SUPPORTRECONNECT) (timestamp packet));
                     State_Monad.return (ok, state)
                   }
             }
           }
     }
   }"

text \<open>Hexadecimal output (\<open>%02X\<close>, \<open>%08X\<close>) and \<open>%d\<close>.\<close>

definition hex_char :: "nat \<Rightarrow> char" where
  "hex_char n = (if n < 10 then char_of (48 + n) else char_of (55 + n))"

fun show_hex :: "nat \<Rightarrow> nat \<Rightarrow> string" where
  "show_hex 0 n = []"
| "show_hex (Suc k) n = show_hex k (n div 16) @ [hex_char (n mod 16)]"

definition show_int :: "int \<Rightarrow> string" where
  "show_int i = (if i < 0 then CHR ''-'' # show_nat (nat (- i)) else show_nat (nat i))"

definition unknown_command :: "bgb_packet \<Rightarrow> string" where
  "unknown_command p =
     ''bgb_loop: Unknown command: '' @ show_nat (unat (cmd p)) @ '' ('' @ show_hex 2 (unat (b2 p)) @ '' '' @
     show_hex 2 (unat (b3 p)) @ '' '' @ show_hex 2 (unat (b4 p)) @ '') @ '' @ show_int (sint (timestamp p)) @ newline"

text \<open>
  The \<open>switch\<close> of \<open>bgb_loop\<close>: \<open>None\<close> is \<open>return false\<close>, otherwise the state and
  \<open>timestamp_cur\<close> after the switch.
\<close>

definition bgb_loop_switch ::
    "os_env \<Rightarrow> 'a os_scheme bgb_state \<Rightarrow> bgb_packet \<Rightarrow>
     ('a os_scheme, ('a os_scheme bgb_state \<times> u32) option cres) state" where
  "bgb_loop_switch E state packet =
     (let timestamp_cur = timestamp_last state in
      if cmd packet = BGB_CMD_JOYPAD then ret_ok (Some (state, timestamp_cur))
      else if cmd packet = BGB_CMD_SYNC1 then do {
        let byte_cur = b2 packet;
        let timestamp_cur = timestamp packet;
        ok \<leftarrow> bgb_send E (bgb_socket state)
          \<lparr>cmd = BGB_CMD_SYNC2, b2 = bgb_byte state, b3 = 0x80, b4 = 0, timestamp = 0\<rparr>;
        if \<not> ok then ret_ok None
        else (case callback_transfer state of
            None \<Rightarrow> ret_ok (Some (state, timestamp_cur))
          | Some transfer \<Rightarrow> andthen (transfer byte_cur)
              (\<lambda>b. ret_ok (Some (state\<lparr>bgb_byte := b\<rparr>, timestamp_cur))))
      }
      else if cmd packet = BGB_CMD_SYNC2 then ret_ok (Some (state, timestamp_cur))
      else if cmd packet = BGB_CMD_SYNC3 then do {
        let timestamp_cur = timestamp packet;
        if b2 packet \<noteq> 0 then ret_ok (Some (state, timestamp_cur))
        else do {
          ok \<leftarrow> bgb_send E (bgb_socket state) packet;
          if \<not> ok then ret_ok None else ret_ok (Some (state, timestamp_cur))
        }
      }
      else if cmd packet = BGB_CMD_STATUS then ret_ok (Some (state, timestamp_cur))
      else if cmd packet = BGB_CMD_WANTDISCONNECT then ret_ok (Some (state, timestamp_cur))
      else do {
        eprint (unknown_command packet);
        ret_ok None
      })"

definition back_in_time :: "u32 \<Rightarrow> u32 \<Rightarrow> string" where
  "back_in_time old new =
     ''[BGB] Emulator went back in time? old: 0x'' @ show_hex 8 (unat old) @ ''; new: 0x'' @
     show_hex 8 (unat new) @ newline"

definition bgb_loop_clock ::
    "'a os_scheme bgb_state \<Rightarrow> u32 \<Rightarrow> ('a os_scheme, 'a os_scheme bgb_state) state" where
  "bgb_loop_clock state timestamp_cur =
     (case callback_timestamp state of
        None \<Rightarrow> State_Monad.return state
      | Some callback \<Rightarrow> do {
          state \<leftarrow> (if \<not> timestamp_init state then do {
              callback timestamp_cur;
              State_Monad.return (state\<lparr>timestamp_last := timestamp_cur, timestamp_init := True\<rparr>)
            } else State_Monad.return state);
          let diff = (timestamp_last state - timestamp_cur) AND 0x7FFFFFFF;
          timestamp_cur \<leftarrow> (if diff \<noteq> 0 \<and> diff \<le> 0x100 then do {
              eprint (back_in_time (timestamp_last state) timestamp_cur);
              State_Monad.return (timestamp_last state)
            } else State_Monad.return timestamp_cur);
          when_st (timestamp_last state \<noteq> timestamp_cur) (callback timestamp_cur);
          State_Monad.return (state\<lparr>timestamp_last := timestamp_cur\<rparr>)
        })"

definition bgb_loop ::
    "os_env \<Rightarrow> 'a os_scheme bgb_state \<Rightarrow> ('a os_scheme, (bool \<times> 'a os_scheme bgb_state) cres) state" where
  "bgb_loop E state = do {
     h \<leftarrow> socket_hasdata E (bgb_socket state);
     if h \<le> 0 then ret_ok (True, state)
     else do {
       r \<leftarrow> bgb_recv E (bgb_socket state);
       case r of
         None \<Rightarrow> ret_ok (False, state)
       | Some packet \<Rightarrow>
           andthen (bgb_loop_switch E state packet) (\<lambda>res.
             case res of
               None \<Rightarrow> ret_ok (False, state)
             | Some (state, timestamp_cur) \<Rightarrow> do {
                 state \<leftarrow> bgb_loop_clock state timestamp_cur;
                 ret_ok (True, state)
               })
     }
   }"

lemma bgb_cmds_distinct:
  "distinct [BGB_CMD_VERSION, BGB_CMD_JOYPAD, BGB_CMD_SYNC1, BGB_CMD_SYNC2, BGB_CMD_SYNC3,
     BGB_CMD_STATUS, BGB_CMD_WANTDISCONNECT]"
  "distinct [BGB_CMD_WANTDISCONNECT, BGB_CMD_STATUS, BGB_CMD_SYNC3, BGB_CMD_SYNC2, BGB_CMD_SYNC1,
     BGB_CMD_JOYPAD, BGB_CMD_VERSION]"
  by (simp_all add: bgb_cmds)

lemmas bgb_cmds_neq [simp] =
  bgb_cmds_distinct [simplified distinct.simps list.set insert_iff de_Morgan_disj conj_assoc]

section \<open>The wire format\<close>

lemma packet_of_bytes_Some:
  "packet_of_bytes bs = Some p \<longleftrightarrow> bs = packet_bytes p"
proof
  assume "packet_of_bytes bs = Some p"
  then show "bs = packet_bytes p"
    by (induction bs rule: packet_of_bytes.induct) (auto simp: packet_bytes_def le_bytes_le_word)
next
  assume "bs = packet_bytes p"
  then show "packet_of_bytes bs = Some p"
    by (simp add: packet_bytes_def le_bytes_def le_word_le_bytes)
qed

interpretation packet_format: wire_format "\<lambda>_. True" packet_bytes packet_of_bytes
  by unfold_locales (simp_all add: packet_of_bytes_Some)

lemma length_packet_bytes [simp]: "length (packet_bytes p) = sizeof_packet"
  by (simp add: packet_bytes_def sizeof_packet_def)

lemma packet_of_packet_bytes [simp]: "packet_of_bytes (packet_bytes p) = Some p"
  by (simp add: packet_of_bytes_Some)

lemma packet_bytes_inject [simp]: "packet_bytes p = packet_bytes q \<longleftrightarrow> p = q"
  by (rule packet_format.enc_inj) simp_all

section \<open>Sending and receiving\<close>

lemma bgb_send_trace:
  assumes "run_state (bgb_send E fd p) s = (ok, s')"
  shows "\<exists>r. trace s' = (Sys_send fd (packet_bytes p), r) # trace s \<and> r = reply E (trace s) (Sys_send fd (packet_bytes p)) \<and>
    (ok \<longleftrightarrow> ret r = 8) \<and> os.more s' = os.more s"
  using assms by (auto simp: bgb_send_def sizeof_packet_def split: if_splits)

lemma bgb_recv_trace:
  assumes "run_state (bgb_recv E fd) s = (p, s')"
  shows "\<exists>r. trace s' = (Sys_recv fd 8, r) # trace s \<and> r = reply E (trace s) (Sys_recv fd 8) \<and>
    (\<forall>q. p = Some q \<longleftrightarrow> ret r = 8 \<and> rdata r = packet_bytes q) \<and> os.more s' = os.more s"
  using assms by (auto simp: bgb_recv_def sizeof_packet_def packet_of_bytes_Some split: if_splits)

text \<open>
  The layout of a packet on the wire, byte by byte: four single bytes, then the time
  stamp, least significant byte first.
\<close>

definition laid_out :: "byte list \<Rightarrow> bgb_packet \<Rightarrow> bool" where
  "laid_out bs p \<longleftrightarrow> length bs = 8 \<and> bs ! 0 = cmd p \<and> bs ! 1 = b2 p \<and> bs ! 2 = b3 p \<and> bs ! 3 = b4 p \<and>
     unat (timestamp p) = unat (bs ! 4) + 2 ^ 8 * unat (bs ! 5) + 2 ^ 16 * unat (bs ! 6) + 2 ^ 24 * unat (bs ! 7)"

lemma base_256:
  fixes n :: nat
  assumes "256 * a + r = n" and "256 * b + s = a" and "256 * c + t = b"
  shows "n = r + 2 ^ 8 * s + 2 ^ 16 * t + 2 ^ 24 * c"
  using assms by simp

lemma unat_bytes:
  fixes x :: u32
  shows "unat x = unat (ucast x :: byte) + 2 ^ 8 * unat (ucast (drop_bit 8 x) :: byte) +
    2 ^ 16 * unat (ucast (drop_bit 16 x) :: byte) + 2 ^ 24 * unat (ucast (drop_bit 24 x) :: byte)"
proof -
  define n where "n = unat x"
  have n: "n < 2 ^ 32" using unsigned_less [of x, where ?'a = nat] by (simp add: n_def)
  have "unat (ucast (drop_bit k x) :: byte) = n div 2 ^ k mod 2 ^ 8" for k
    unfolding unsigned_ucast_eq unat_drop_bit_eq by (simp add: n_def take_bit_eq_mod drop_bit_eq_div)
  from this [of 0] this [of 8] this [of 16] this [of 24]
  have b: "unat (ucast x :: byte) = n mod 256" "unat (ucast (drop_bit 8 x) :: byte) = n div 256 mod 256"
    "unat (ucast (drop_bit 16 x) :: byte) = n div 256 div 256 mod 256"
    "unat (ucast (drop_bit 24 x) :: byte) = n div 256 div 256 div 256 mod 256"
    by (simp_all add: div_mult2_eq [symmetric])
  have "n div 256 div 256 div 256 < 256" using n by (simp add: div_mult2_eq [symmetric] less_mult_imp_div_less)
  then have m: "n div 256 div 256 div 256 mod 256 = n div 256 div 256 div 256" by (rule mod_less)
  show ?thesis
    unfolding b m n_def [symmetric] by (rule base_256 [OF mult_div_mod_eq mult_div_mod_eq mult_div_mod_eq])
qed

lemma laid_out_packet_bytes: "laid_out bs p \<longleftrightarrow> bs = packet_bytes p"
proof
  have enc: "laid_out (packet_bytes q) q" for q
  proof -
    let ?t = "timestamp q"
    have at: "packet_bytes q ! 0 = cmd q" "packet_bytes q ! 1 = b2 q" "packet_bytes q ! 2 = b3 q" "packet_bytes q ! 3 = b4 q"
      "packet_bytes q ! 4 = ucast ?t" "packet_bytes q ! 5 = ucast (drop_bit 8 ?t)"
      "packet_bytes q ! 6 = ucast (drop_bit 16 ?t)" "packet_bytes q ! 7 = ucast (drop_bit 24 ?t)"
      by (simp_all add: packet_bytes_def le_bytes_def)
    show ?thesis
      unfolding laid_out_def at by (intro conjI unat_bytes refl) (simp add: sizeof_packet_def)
  qed
  then show "bs = packet_bytes p \<Longrightarrow> laid_out bs p" by simp
  assume l: "laid_out bs p"
  then have "length bs = 8" by (simp add: laid_out_def)
  then have "\<exists>q. packet_of_bytes bs = Some q" by (auto simp: numeral_eq_Suc length_Suc_conv)
  then obtain q where q: "bs = packet_bytes q" by (auto simp: packet_of_bytes_Some)
  have "cmd p = cmd q" "b2 p = b2 q" "b3 p = b3 q" "b4 p = b4 q" "unat (timestamp p) = unat (timestamp q)"
    using l enc [of q] unfolding q laid_out_def by (elim conjE; simp only:)+
  then have "p = q" by (intro bgb_packet.equality) (simp_all add: word_unat_eq_iff)
  with q show "bs = packet_bytes p" by simp
qed

text \<open>C25.
  A packet goes over the wire as one block of 8 bytes in a fixed layout: command, three
  bytes, and the time stamp from its least significant byte on. \<open>bgb_send\<close> makes one \<open>send\<close>
  of that block and succeeds exactly when all of it was taken; \<open>bgb_recv\<close> makes one
  \<open>recv\<close> for 8 bytes and gives the packet with that layout exactly when 8 came.
\<close>

theorem packets_on_the_wire:
  "(\<exists>bs. laid_out bs p \<and> trace (exec (bgb_send E fd p) s) = (Sys_send fd bs, reply E (trace s) (Sys_send fd bs)) # trace s \<and>
      (result (bgb_send E fd p) s \<longleftrightarrow> ret (reply E (trace s) (Sys_send fd bs)) = 8)) \<and>
   (\<exists>r. r = reply E (trace s) (Sys_recv fd 8) \<and> trace (exec (bgb_recv E fd) s) = (Sys_recv fd 8, r) # trace s \<and>
      (\<forall>q. result (bgb_recv E fd) s = Some q \<longleftrightarrow> ret r = 8 \<and> laid_out (rdata r) q))"
  using bgb_send_trace [OF run_state_pair, of E fd p s] bgb_recv_trace [OF run_state_pair, of E fd s]
  unfolding laid_out_packet_bytes by blast

lemma observer_bgb_send: "observer {fd} (bgb_send E fd p)"
  unfolding bgb_send_def by (intro observer_intros) simp_all

lemma observer_bgb_recv: "observer {fd} (bgb_recv E fd)"
  unfolding bgb_recv_def by (intro observer_intros) simp_all

section \<open>The handshake\<close>

text \<open>
  The dialogue of a successful start, latest call first: version, version back, paused
  status, a status back, running status.
\<close>

definition greeted :: "int \<Rightarrow> bgb_packet \<Rightarrow> trace \<Rightarrow> trace \<Rightarrow> bool" where
  "greeted fd peer tr0 tr \<longleftrightarrow> cmd peer = BGB_CMD_STATUS \<and>
     (\<exists>r1 r2 r3 r4 r5. (\<forall>r \<in> {r1, r2, r3, r4, r5}. ret r = 8) \<and>
        rdata r2 = packet_bytes handshake \<and> rdata r4 = packet_bytes peer \<and>
        tr = (Sys_send fd (packet_bytes (status_packet 5 (timestamp peer))), r5) # (Sys_recv fd 8, r4) #
             (Sys_send fd (packet_bytes (status_packet 7 0)), r3) # (Sys_recv fd 8, r2) #
             (Sys_send fd (packet_bytes handshake), r1) # tr0)"

text \<open>C12.
  The link is up only after the complete dialogue with the emulator: the version packet
  was sent and came back unchanged, the paused status was sent and answered by a status
  packet, and the running status was sent with the emulator's time stamp, each in one
  8-byte block and in this order. The link state then holds the given byte and callbacks
  and has no time stamp yet.
\<close>

theorem bgb_init_dialogue:
  assumes "run_state (bgb_init E fd b ft fs) s = ((True, st), s')"
  shows "(\<exists>peer. greeted fd peer (trace s) (trace s')) \<and>
    st = \<lparr>bgb_socket = fd, bgb_byte = b, callback_transfer = ft, callback_timestamp = fs,
          timestamp_last = 0, timestamp_init = False\<rparr>"
proof -
  have flags: "(1 OR 2 OR 4 :: byte) = 7" "(1 OR 4 :: byte) = 5" by simp_all
  obtain ok1 s1 where 1: "run_state (bgb_send E fd handshake) s = (ok1, s1)" by fastforce
  obtain p2 s2 where 2: "run_state (bgb_recv E fd) s1 = (p2, s2)" by fastforce
  obtain ok3 s3 where 3: "run_state (bgb_send E fd (status_packet 7 0)) s2 = (ok3, s3)" by fastforce
  obtain p4 s4 where 4: "run_state (bgb_recv E fd) s3 = (p4, s4)" by fastforce
  have "ok1" "p2 = Some handshake" "ok3"
    and p4: "\<exists>peer. p4 = Some peer \<and> cmd peer = BGB_CMD_STATUS"
    using assms by (auto simp: bgb_init_def Let_def 1 2 3 4 flags split: if_splits option.splits)
  moreover from p4 obtain peer where peer: "p4 = Some peer" "cmd peer = BGB_CMD_STATUS" by blast
  obtain ok5 s5 where 5: "run_state (bgb_send E fd (status_packet 5 (timestamp peer))) s4 = (ok5, s5)" by fastforce
  ultimately have "ok5" "s' = s5" and st: "st = \<lparr>bgb_socket = fd, bgb_byte = b, callback_transfer = ft,
      callback_timestamp = fs, timestamp_last = 0, timestamp_init = False\<rparr>"
    using assms peer by (auto simp: bgb_init_def Let_def 1 2 3 4 5 flags)
  moreover
  obtain r1 where "trace s1 = (Sys_send fd (packet_bytes handshake), r1) # trace s" "ret r1 = 8"
    using bgb_send_trace [OF 1] \<open>ok1\<close> by blast
  moreover obtain r2 where "trace s2 = (Sys_recv fd 8, r2) # trace s1" "ret r2 = 8" "rdata r2 = packet_bytes handshake"
    using bgb_recv_trace [OF 2] \<open>p2 = Some handshake\<close> by blast
  moreover obtain r3 where "trace s3 = (Sys_send fd (packet_bytes (status_packet 7 0)), r3) # trace s2" "ret r3 = 8"
    using bgb_send_trace [OF 3] \<open>ok3\<close> by blast
  moreover obtain r4 where "trace s4 = (Sys_recv fd 8, r4) # trace s3" "ret r4 = 8" "rdata r4 = packet_bytes peer"
    using bgb_recv_trace [OF 4] peer(1) by blast
  moreover obtain r5 where "ret r5 = 8"
      "trace s5 = (Sys_send fd (packet_bytes (status_packet 5 (timestamp peer))), r5) # trace s4"
    using bgb_send_trace [OF 5] \<open>ok5\<close> by blast
  ultimately have "greeted fd peer (trace s) (trace s')"
    using peer(2) by (auto simp: greeted_def)
  with st show ?thesis by blast
qed

text \<open>The emulator's side of a complete dialogue.\<close>

definition greet_lab :: os_env where
  "greet_lab = lab_env (\<lambda>tr c. case c of
      Sys_send _ _ \<Rightarrow> ok_ret\<lparr>ret := 8\<rparr>
    | Sys_recv _ _ \<Rightarrow> ok_ret\<lparr>ret := 8, rdata :=
        (if length tr = 1 then [1, 1, 4, 0, 0, 0, 0, 0] else [108, 1, 0, 0, 9, 0, 0, 0])\<rparr>
    | _ \<Rightarrow> ok_ret)"

theorem bgb_init_dialogue_witness:
  "\<exists>peer. greeted 5 peer [] (trace (exec (bgb_init greet_lab 5 0xD2 None None) os_init))"
proof -
  have "fst (result (bgb_init greet_lab 5 0xD2 None None) os_init)" by code_simp
  then have "run_state (bgb_init greet_lab 5 0xD2 None None) os_init =
      ((True, snd (result (bgb_init greet_lab 5 0xD2 None None) os_init)),
       exec (bgb_init greet_lab 5 0xD2 None None) os_init)"
    by (cases "result (bgb_init greet_lab 5 0xD2 None None) os_init") (simp add: run_state_pair)
  from bgb_init_dialogue [OF this] show ?thesis by (simp add: os_init_def)
qed

section \<open>The clock\<close>

text \<open>
  Time stamps count clock ticks modulo \<open>2 ^ 31\<close>. \<open>went_back old cur\<close>: the new stamp is
  behind the last one by at most 256 ticks.
\<close>

definition went_back :: "u32 \<Rightarrow> u32 \<Rightarrow> bool" where
  "went_back old cur \<longleftrightarrow> (2 ^ 32 + unat old - unat cur) mod 2 ^ 31 \<in> {1..256}"

lemma went_back_word:
  "(old - cur :: u32) AND 0x7FFFFFFF \<noteq> 0 \<and> (old - cur) AND 0x7FFFFFFF \<le> 0x100 \<longleftrightarrow> went_back old cur"
proof -
  let ?d = "(old - cur) AND 0x7FFFFFFF"
  have "unat ?d = (2 ^ 32 + unat old - unat cur) mod 2 ^ 31"
    by (simp only: mask31_unat unat_diff_mod)
  moreover have "?d \<noteq> 0 \<longleftrightarrow> unat ?d \<noteq> 0" by (simp add: unat_eq_zero)
  moreover have "?d \<le> 0x100 \<longleftrightarrow> unat ?d \<le> 256" by (simp add: word_le_nat_alt)
  ultimately show ?thesis by (simp add: went_back_def Suc_le_eq)
qed

lemma not_went_back_refl [simp]: "\<not> went_back t t"
  by (simp add: went_back_def)

lemma run_loop_clock:
  "run_state (bgb_loop_clock st cur) s =
     (case callback_timestamp st of
        None \<Rightarrow> (st, s)
      | Some cb \<Rightarrow>
          if \<not> timestamp_init st
          then (st\<lparr>timestamp_last := cur, timestamp_init := True\<rparr>, exec (cb cur) s)
          else if went_back (timestamp_last st) cur
          then (st, s\<lparr>stderr := stderr s @ back_in_time (timestamp_last st) cur\<rparr>)
          else if timestamp_last st = cur then (st, s)
          else (st\<lparr>timestamp_last := cur\<rparr>, exec (cb cur) s))"
  unfolding bgb_loop_clock_def Let_def went_back_word
  by (auto simp: exec_def split: option.split prod.split)

text \<open>C10.
  What a packet's time stamp does to the clock, in every case: the first stamp sets it;
  a stamp that lies up to 256 ticks in the past is reported and ignored; an unchanged
  stamp does nothing; every other stamp is passed to the callback, exactly once, and
  becomes the last one. Without a callback nothing happens.
\<close>

theorem bgb_loop_clock_cases:
  "run_state (bgb_loop_clock st cur) s =
     (case callback_timestamp st of
        None \<Rightarrow> (st, s)
      | Some cb \<Rightarrow>
          if \<not> timestamp_init st
          then (st\<lparr>timestamp_last := cur, timestamp_init := True\<rparr>, exec (cb cur) s)
          else if went_back (timestamp_last st) cur
          then (st, s\<lparr>stderr := stderr s @ back_in_time (timestamp_last st) cur\<rparr>)
          else if timestamp_last st = cur then (st, s)
          else (st\<lparr>timestamp_last := cur\<rparr>, exec (cb cur) s))"
  by (rule run_loop_clock)

section \<open>One round of the loop\<close>

text \<open>A packet is waiting and is read: \<open>arrives\<close> relates the states before and after.\<close>

definition arrives :: "os_env \<Rightarrow> int \<Rightarrow> 'a os_scheme \<Rightarrow> bgb_packet \<Rightarrow> 'a os_scheme \<Rightarrow> bool" where
  "arrives E fd s p s1 \<longleftrightarrow>
     (\<exists>h s0. run_state (socket_hasdata E fd) s = (h, s0) \<and> 0 < h \<and> run_state (bgb_recv E fd) s0 = (Some p, s1))"

lemma arrives_trace:
  assumes "arrives E fd s p s1"
  shows "\<exists>r. trace s1 = (Sys_recv fd 8, r) # (Sys_poll [(fd, [POLLIN, POLLPRI])] 0,
      reply E (trace s) (Sys_poll [(fd, [POLLIN, POLLPRI])] 0)) # trace s \<and>
    ret r = 8 \<and> rdata r = packet_bytes p \<and> os.more s1 = os.more s"
proof -
  from assms obtain h s0 where h: "run_state (socket_hasdata E fd) s = (h, s0)" "0 < h"
    and r: "run_state (bgb_recv E fd) s0 = (Some p, s1)"
    by (auto simp: arrives_def)
  have "trace s0 = (Sys_poll [(fd, [POLLIN, POLLPRI])] 0,
      reply E (trace s) (Sys_poll [(fd, [POLLIN, POLLPRI])] 0)) # trace s \<and> os.more s0 = os.more s"
    using h by (auto simp: socket_hasdata_def split: if_splits)
  with bgb_recv_trace [OF r] show ?thesis by auto
qed

lemma run_loop_arrives:
  assumes "arrives E (bgb_socket st) s p s1"
  shows "run_state (bgb_loop E st) s =
    (case run_state (bgb_loop_switch E st p) s1 of
       (Abort e, s2) \<Rightarrow> (Abort e, s2)
     | (Ret None, s2) \<Rightarrow> (Ret (False, st), s2)
     | (Ret (Some (st', cur)), s2) \<Rightarrow>
         (case run_state (bgb_loop_clock st' cur) s2 of (st'', s3) \<Rightarrow> (Ret (True, st''), s3)))"
  using assms by (auto simp: arrives_def bgb_loop_def run_andthen split: prod.splits cres.splits option.splits)

text \<open>The three ways a round can begin.\<close>

lemma loop_cases:
  obtains (quiet) s1 where "run_state (bgb_loop E st) s = (Ret (True, st), s1)"
      "\<exists>r. trace s1 = (Sys_poll [(bgb_socket st, [POLLIN, POLLPRI])] 0, r) # trace s" "os.more s1 = os.more s"
  | (broken) s1 where "run_state (bgb_loop E st) s = (Ret (False, st), s1)" "os.more s1 = os.more s"
  | (packet) p s1 where "arrives E (bgb_socket st) s p s1"
proof -
  let ?fd = "bgb_socket st"
  obtain h s0 where h: "run_state (socket_hasdata E ?fd) s = (h, s0)" by fastforce
  have h0: "\<exists>r. trace s0 = (Sys_poll [(?fd, [POLLIN, POLLPRI])] 0, r) # trace s" "os.more s0 = os.more s"
    using h by (auto simp: socket_hasdata_def split: if_splits)
  obtain r s1 where r: "run_state (bgb_recv E ?fd) s0 = (r, s1)" by fastforce
  consider "h \<le> 0" | "0 < h" "r = None" | p where "0 < h" "r = Some p"
    by (metis not_le option.exhaust)
  then show thesis
  proof cases
    case 1
    then show ?thesis using h h0 by (intro quiet [of s0]) (auto simp: bgb_loop_def)
  next
    case 2
    then show ?thesis using h h0 r bgb_recv_trace [OF r] by (intro broken [of s1]) (auto simp: bgb_loop_def)
  next
    case 3
    then show ?thesis using h r by (intro packet [of p s1]) (auto simp: arrives_def)
  qed
qed

text \<open>C13.
  A byte from the emulator (\<open>SYNC1\<close>) is answered with the byte prepared before it came:
  the reply is sent first, then the transfer callback runs on the received byte, and its
  result is kept for the next exchange. The packet's time stamp drives the clock. If the
  reply cannot be sent as one block, the link ends without running the callback.
\<close>

theorem bgb_loop_exchanges_byte:
  assumes "arrives E (bgb_socket st) s p s1" and "cmd p = BGB_CMD_SYNC1"
    and "callback_transfer st = Some transfer"
    and "run_state (bgb_send E (bgb_socket st)
      \<lparr>cmd = BGB_CMD_SYNC2, b2 = bgb_byte st, b3 = 0x80, b4 = 0, timestamp = 0\<rparr>) s1 = (ok, s2)"
  shows "run_state (bgb_loop E st) s =
    (if \<not> ok then (Ret (False, st), s2)
     else case run_state (transfer (b2 p)) s2 of
       (Abort e, s3) \<Rightarrow> (Abort e, s3)
     | (Ret b, s3) \<Rightarrow>
         (case run_state (bgb_loop_clock (st\<lparr>bgb_byte := b\<rparr>) (timestamp p)) s3 of
            (st', s4) \<Rightarrow> (Ret (True, st'), s4)))"
  unfolding run_loop_arrives [OF assms(1)]
  by (auto simp: bgb_loop_switch_def Let_def assms(2-4) run_andthen
      split: prod.split cres.split)

text \<open>An emulator that sends the byte \<open>0x99\<close> at tick 64.\<close>

definition sync_lab :: os_env where
  "sync_lab = lab_env (\<lambda>tr c. case c of
      Sys_poll _ _ \<Rightarrow> ok_ret\<lparr>ret := 1\<rparr>
    | Sys_send _ _ \<Rightarrow> ok_ret\<lparr>ret := 8\<rparr>
    | Sys_recv _ _ \<Rightarrow> ok_ret\<lparr>ret := 8, rdata := [104, 0x99, 0x81, 0, 64, 0, 0, 0]\<rparr>
    | _ \<Rightarrow> ok_ret)"

definition link_lab :: "os bgb_state" where
  "link_lab = \<lparr>bgb_socket = 5, bgb_byte = 0xD2, callback_transfer = Some (\<lambda>c. ret_ok (c + 1)),
     callback_timestamp = None, timestamp_last = 0, timestamp_init = False\<rparr>"

definition sync1_lab :: bgb_packet where
  "sync1_lab = \<lparr>cmd = 104, b2 = 0x99, b3 = 0x81, b4 = 0, timestamp = 64\<rparr>"

lemma sync_lab_arrives:
  "arrives sync_lab 5 os_init sync1_lab (exec (bgb_recv sync_lab 5) (exec (socket_hasdata sync_lab 5) os_init))"
proof -
  have "result (socket_hasdata sync_lab 5) os_init = 1" by code_simp
  moreover have "result (bgb_recv sync_lab 5) (exec (socket_hasdata sync_lab 5) os_init) = Some sync1_lab"
    by code_simp
  ultimately show ?thesis by (auto simp: arrives_def run_state_pair)
qed

theorem bgb_loop_exchanges_byte_witness:
  "\<exists>s2. run_state (bgb_loop sync_lab link_lab) os_init = (Ret (True, link_lab\<lparr>bgb_byte := 0x9A\<rparr>), s2)"
proof -
  let ?s1 = "exec (bgb_recv sync_lab 5) (exec (socket_hasdata sync_lab 5) os_init)"
  let ?reply = "\<lparr>cmd = BGB_CMD_SYNC2, b2 = 0xD2, b3 = 0x80, b4 = 0, timestamp = 0\<rparr>"
  have "result (bgb_send sync_lab 5 ?reply) ?s1 = True" by code_simp
  then have "run_state (bgb_send sync_lab 5 ?reply) ?s1 = (True, exec (bgb_send sync_lab 5 ?reply) ?s1)"
    by (simp add: run_state_pair)
  with bgb_loop_exchanges_byte [of sync_lab link_lab os_init sync1_lab ?s1 "\<lambda>c. ret_ok (c + 1)" True]
    sync_lab_arrives
  show ?thesis
    by (simp add: link_lab_def sync1_lab_def BGB_CMD_SYNC1_def bgb_loop_clock_def)
qed

text \<open>C28.
  A packet with a command the program does not know ends the link: the loop returns
  false, sends nothing, runs no callback and leaves the link state alone.
\<close>

theorem bgb_loop_rejects_unknown:
  assumes "arrives E (bgb_socket st) s p s1"
    and "cmd p \<notin> {BGB_CMD_JOYPAD, BGB_CMD_SYNC1, BGB_CMD_SYNC2, BGB_CMD_SYNC3, BGB_CMD_STATUS, BGB_CMD_WANTDISCONNECT}"
  shows "run_state (bgb_loop E st) s = (Ret (False, st), s1\<lparr>stderr := stderr s1 @ unknown_command p\<rparr>)"
  unfolding run_loop_arrives [OF assms(1)]
  using assms(2) by (simp add: bgb_loop_switch_def Let_def)

theorem bgb_loop_rejects_unknown_witness:
  "fst (run_state (bgb_loop (sync_lab\<lparr>reply := (\<lambda>tr c. case c of
      Sys_recv _ _ \<Rightarrow> ok_ret\<lparr>ret := 8, rdata := [1, 1, 4, 0, 0, 0, 0, 0]\<rparr> | _ \<Rightarrow> reply sync_lab tr c)\<rparr>) link_lab) os_init)
   = Ret (False, link_lab)"
proof -
  let ?E = "sync_lab\<lparr>reply := (\<lambda>tr c. case c of
      Sys_recv _ _ \<Rightarrow> ok_ret\<lparr>ret := 8, rdata := [1, 1, 4, 0, 0, 0, 0, 0]\<rparr> | _ \<Rightarrow> reply sync_lab tr c)\<rparr>"
  let ?s0 = "exec (socket_hasdata ?E 5) os_init"
  have "result (socket_hasdata ?E 5) os_init = 1" by code_simp
  moreover have "result (bgb_recv ?E 5) ?s0 = Some handshake" by code_simp
  ultimately have "arrives ?E (bgb_socket link_lab) os_init handshake (exec (bgb_recv ?E 5) ?s0)"
    by (auto simp: arrives_def run_state_pair link_lab_def)
  from bgb_loop_rejects_unknown [OF this] show ?thesis
    by (simp add: handshake_def bgb_cmds)
qed

section \<open>The link as a serial port\<close>

text \<open>Rounds of the loop until one fails, as the main program makes them.\<close>

fun bgb_rounds :: "os_env \<Rightarrow> nat \<Rightarrow> 'a os_scheme bgb_state \<Rightarrow> ('a os_scheme, (bool \<times> 'a os_scheme bgb_state) cres) state" where
  "bgb_rounds E 0 st = ret_ok (True, st)"
| "bgb_rounds E (Suc n) st =
     andthen (bgb_loop E st) (\<lambda>(ok, st'). if ok then bgb_rounds E n st' else ret_ok (False, st'))"

text \<open>The bytes that came in and went out over the link, latest first as the history is.\<close>

fun bytes_in :: "int \<Rightarrow> trace \<Rightarrow> byte list" where
  "bytes_in fd [] = []"
| "bytes_in fd ((Sys_recv f n, r) # tr) =
     (case (if f = fd \<and> ret r = 8 then packet_of_bytes (rdata r) else None) of
        Some p \<Rightarrow> if cmd p = BGB_CMD_SYNC1 then b2 p # bytes_in fd tr else bytes_in fd tr
      | None \<Rightarrow> bytes_in fd tr)"
| "bytes_in fd (_ # tr) = bytes_in fd tr"

fun bytes_out :: "int \<Rightarrow> trace \<Rightarrow> byte list" where
  "bytes_out fd [] = []"
| "bytes_out fd ((Sys_send f d, r) # tr) =
     (case (if f = fd then packet_of_bytes d else None) of
        Some p \<Rightarrow> if cmd p = BGB_CMD_SYNC2 then b2 p # bytes_out fd tr else bytes_out fd tr
      | None \<Rightarrow> bytes_out fd tr)"
| "bytes_out fd (_ # tr) = bytes_out fd tr"

lemma bytes_in_append: "bytes_in fd (a @ b) = bytes_in fd a @ bytes_in fd b"
  by (induction fd a rule: bytes_in.induct) (auto split: option.split)

lemma bytes_out_append: "bytes_out fd (a @ b) = bytes_out fd a @ bytes_out fd b"
  by (induction fd a rule: bytes_out.induct) (auto split: option.split)

text \<open>
  What the link promises to the device behind it: a serial port that shifts one byte
  out while it shifts one byte in. The device has two operations: \<open>dev c\<close> takes a byte and
  prepares the next one, \<open>clk t\<close> takes a time stamp. \<open>serial_port dev clk b0 s0 xs b s\<close>: from the
  state \<open>s0\<close> with the byte \<open>b0\<close> prepared, the port has made the exchanges \<open>xs\<close> (byte in, byte
  out), and is now in state \<open>s\<close> with \<open>b\<close> prepared. Each exchange gives out the byte that
  was prepared before and runs the device once on the byte that came in; apart from the
  device's own operations the program's memory stays as it is.
\<close>

inductive serial_port ::
    "(byte \<Rightarrow> ('m os_scheme, byte cres) state) \<Rightarrow> (u32 \<Rightarrow> ('m os_scheme, unit) state) \<Rightarrow> byte \<Rightarrow> 'm os_scheme \<Rightarrow>
     (byte \<times> byte) list \<Rightarrow> byte \<Rightarrow> 'm os_scheme \<Rightarrow> bool"
  for dev clk b0 s0 where
  start: "serial_port dev clk b0 s0 [] b0 s0"
| idle: "serial_port dev clk b0 s0 xs b s \<Longrightarrow> os.more s' = os.more s \<Longrightarrow> serial_port dev clk b0 s0 xs b s'"
| exchange: "serial_port dev clk b0 s0 xs b s \<Longrightarrow> run_state (dev c) s = (Ret b', s') \<Longrightarrow>
    serial_port dev clk b0 s0 (xs @ [(c, b)]) b' s'"
| tick: "serial_port dev clk b0 s0 xs b s \<Longrightarrow> serial_port dev clk b0 s0 xs b (exec (clk t) s)"

lemma serial_port_trans:
  assumes "serial_port dev clk b' s' ys b'' s''" and "serial_port dev clk b0 s0 xs b' s'"
  shows "serial_port dev clk b0 s0 (xs @ ys) b'' s''"
  using assms
proof (induction rule: serial_port.induct)
  case (exchange ys b s c d t)
  from serial_port.exchange [OF exchange.IH [OF exchange.prems] exchange.hyps(2)] show ?case by simp
qed (auto intro: serial_port.intros)

text \<open>Code that leaves the link alone: whatever it does, it moves no byte over it.\<close>

definition off_link :: "int \<Rightarrow> ('m os_scheme, 'b) state \<Rightarrow> bool" where
  "off_link fd m \<longleftrightarrow> (\<forall>s. \<exists>evs. trace (exec m s) = evs @ trace s \<and> bytes_in fd evs = [] \<and> bytes_out fd evs = [])"

lemma off_linkD:
  assumes "off_link fd m" and "run_state m s = (a, s')"
  obtains evs where "trace s' = evs @ trace s" and "bytes_in fd evs = []" and "bytes_out fd evs = []"
proof -
  from assms(1) obtain evs where "trace (exec m s) = evs @ trace s" "bytes_in fd evs = []" "bytes_out fd evs = []"
    unfolding off_link_def by blast
  with assms(2) that show thesis by (simp add: exec_def)
qed

text \<open>The calls of a stretch of the program and the exchanges of the port agree.\<close>

definition carries ::
    "(byte \<Rightarrow> ('m os_scheme, byte cres) state) \<Rightarrow> (u32 \<Rightarrow> ('m os_scheme, unit) state) \<Rightarrow> int \<Rightarrow>
     byte \<Rightarrow> 'm os_scheme \<Rightarrow> byte \<Rightarrow> 'm os_scheme \<Rightarrow> bool" where
  "carries dev clk fd b s b' s' \<longleftrightarrow> (\<exists>evs xs. trace s' = evs @ trace s \<and> serial_port dev clk b s xs b' s' \<and>
     map fst xs = rev (bytes_in fd evs) \<and> map snd xs = rev (bytes_out fd evs))"

lemma carriesI:
  assumes "trace s' = evs @ trace s" and "serial_port dev clk b s xs b' s'"
    and "bytes_in fd evs = rev (map fst xs)" and "bytes_out fd evs = rev (map snd xs)"
  shows "carries dev clk fd b s b' s'"
  using assms unfolding carries_def by (intro exI [of _ evs] exI [of _ xs]) simp

lemma carries_trans:
  assumes "carries dev clk fd b s b' s1" and "carries dev clk fd b' s1 b'' s''"
  shows "carries dev clk fd b s b'' s''"
proof -
  from assms obtain e1 xs e2 ys where "trace s1 = e1 @ trace s" "serial_port dev clk b s xs b' s1"
    "map fst xs = rev (bytes_in fd e1)" "map snd xs = rev (bytes_out fd e1)"
    "trace s'' = e2 @ trace s1" "serial_port dev clk b' s1 ys b'' s''"
    "map fst ys = rev (bytes_in fd e2)" "map snd ys = rev (bytes_out fd e2)"
    unfolding carries_def by blast
  then show ?thesis
    unfolding carries_def
    by (intro exI [of _ "e2 @ e1"] exI [of _ "xs @ ys"])
      (auto simp: bytes_in_append bytes_out_append intro: serial_port_trans)
qed

text \<open>A step without an exchange: link traffic that carries no byte, or the device's clock.\<close>

lemma carries_idle:
  assumes "trace s' = evs @ trace s" and "os.more s' = os.more s" and "bytes_in fd evs = []" and "bytes_out fd evs = []"
  shows "carries dev clk fd b s b s'"
  by (rule carriesI [OF assms(1) serial_port.idle [OF serial_port.start assms(2)]]) (simp_all add: assms(3,4))

lemma clock_carries:
  assumes "callback_timestamp st = Some clk" and "\<And>t. off_link fd (clk t)"
    and "run_state (bgb_loop_clock st cur) s = (st', s')"
  shows "carries dev clk fd b s b s' \<and> bgb_byte st' = bgb_byte st \<and> bgb_socket st' = bgb_socket st \<and>
    callback_transfer st' = callback_transfer st \<and> callback_timestamp st' = callback_timestamp st"
proof -
  have tick: "carries dev clk fd b s b (exec (clk cur) s)"
  proof -
    obtain evs where "trace (exec (clk cur) s) = evs @ trace s" "bytes_in fd evs = []" "bytes_out fd evs = []"
      using off_linkD [OF assms(2) run_state_pair] .
    then show ?thesis by (intro carriesI [OF _ serial_port.tick [OF serial_port.start]]) simp_all
  qed
  have stay: "carries dev clk fd b s b (s\<lparr>stderr := t\<rparr>)" "carries dev clk fd b s b s" for t
    by (rule carries_idle [of _ "[]"]; simp)+
  show ?thesis
    using assms(1,3) tick stay by (auto simp: run_loop_clock split: if_splits)
qed

lemma switch_carries:
  assumes "callback_transfer st = Some dev" and "\<And>c. off_link (bgb_socket st) (dev c)"
    and "arrives E (bgb_socket st) s p s1" and "run_state (bgb_loop_switch E st p) s1 = (Ret (Some (st1, cur)), s2)"
  shows "carries dev clk (bgb_socket st) (bgb_byte st) s (bgb_byte st1) s2 \<and> bgb_socket st1 = bgb_socket st \<and>
    callback_transfer st1 = callback_transfer st \<and> callback_timestamp st1 = callback_timestamp st"
proof -
  let ?fd = "bgb_socket st"
  obtain r0 r where arr: "trace s1 = (Sys_recv ?fd 8, r) # (Sys_poll [(?fd, [POLLIN, POLLPRI])] 0, r0) # trace s"
    "ret r = 8" "rdata r = packet_bytes p" "os.more s1 = os.more s"
    using arrives_trace [OF assms(3)] by blast
  show ?thesis
  proof (cases "cmd p = BGB_CMD_SYNC1")
    case False
    let ?evs = "[(Sys_recv ?fd 8, r), (Sys_poll [(?fd, [POLLIN, POLLPRI])] 0, r0)]"
    have st1: "st1 = st" and s2: "s2 = s1 \<or> cmd p = BGB_CMD_SYNC3 \<and> (\<exists>ok. run_state (bgb_send E ?fd p) s1 = (ok, s2))"
      using assms(4) False by (auto simp: bgb_loop_switch_def Let_def split: if_splits prod.splits)
    from s2 obtain e where "trace s2 = e @ ?evs @ trace s" "os.more s2 = os.more s" "bytes_in ?fd e = []" "bytes_out ?fd e = []"
    proof (elim disjE conjE exE)
      assume "s2 = s1"
      with arr that [of "[]"] show thesis by simp
    next
      fix ok
      assume "cmd p = BGB_CMD_SYNC3" and "run_state (bgb_send E ?fd p) s1 = (ok, s2)"
      with bgb_send_trace [OF this(2)] arr that show thesis by fastforce
    qed
    then have "carries dev clk ?fd (bgb_byte st) s (bgb_byte st) s2"
      using False arr(2,3) by (intro carries_idle [where evs = "e @ ?evs"]) (simp_all add: bytes_in_append bytes_out_append)
    with st1 show ?thesis by simp
  next
    case True
    let ?q = "\<lparr>cmd = BGB_CMD_SYNC2, b2 = bgb_byte st, b3 = 0x80, b4 = 0, timestamp = 0\<rparr>"
    obtain ok t where send: "run_state (bgb_send E ?fd ?q) s1 = (ok, t)" by fastforce
    obtain b where ok: ok and st1: "st1 = st\<lparr>bgb_byte := b\<rparr>" and dev: "run_state (dev (b2 p)) t = (Ret b, s2)"
      using assms(1,4) True send
      by (auto simp: bgb_loop_switch_def Let_def run_andthen split: if_splits prod.splits cres.splits)
    obtain q where t: "trace t = (Sys_send ?fd (packet_bytes ?q), q) # trace s1" "os.more t = os.more s1"
      using bgb_send_trace [OF send] by blast
    obtain evs where evs: "trace s2 = evs @ trace t" "bytes_in ?fd evs = []" "bytes_out ?fd evs = []"
      using off_linkD [OF assms(2) dev] .
    have "serial_port dev clk (bgb_byte st) s [] (bgb_byte st) t"
      by (rule serial_port.idle [OF serial_port.start]) (simp add: t(2) arr(4))
    from serial_port.exchange [OF this dev] have "carries dev clk ?fd (bgb_byte st) s b s2"
      using evs arr(2,3) True
      by (intro carriesI [where evs = "evs @ [(Sys_send ?fd (packet_bytes ?q), q), (Sys_recv ?fd 8, r),
            (Sys_poll [(?fd, [POLLIN, POLLPRI])] 0, r0)]" and xs = "[(b2 p, bgb_byte st)]"])
        (simp_all add: t(1) arr(1) bytes_in_append bytes_out_append)
    with st1 show ?thesis by simp
  qed
qed

lemma bgb_loop_carries:
  assumes "callback_transfer st = Some dev" and "callback_timestamp st = Some clk"
    and "\<And>c. off_link (bgb_socket st) (dev c)" and "\<And>t. off_link (bgb_socket st) (clk t)"
    and "run_state (bgb_loop E st) s = (Ret (True, st'), s')"
  shows "carries dev clk (bgb_socket st) (bgb_byte st) s (bgb_byte st') s' \<and> bgb_socket st' = bgb_socket st \<and>
    callback_transfer st' = callback_transfer st \<and> callback_timestamp st' = callback_timestamp st"
proof (cases rule: loop_cases [of E st s])
  case (quiet s1)
  then obtain r where "s' = s1" "st' = st" "trace s1 = [(Sys_poll [(bgb_socket st, [POLLIN, POLLPRI])] 0, r)] @ trace s"
    using assms(5) by auto
  with quiet(3) carries_idle [of s1 _ s] show ?thesis by fastforce
next
  case (broken s1)
  then show ?thesis using assms(5) by simp
next
  case (packet p s1)
  from assms(5) run_loop_arrives [OF packet] obtain st1 cur s2 where
    sw: "run_state (bgb_loop_switch E st p) s1 = (Ret (Some (st1, cur)), s2)"
    and cl: "run_state (bgb_loop_clock st1 cur) s2 = (st', s')"
    by (auto split: cres.splits option.splits prod.splits)
  note S = switch_carries [OF assms(1,3) packet sw, of clk]
  from S assms(2) have "callback_timestamp st1 = Some clk" by simp
  from clock_carries [OF this assms(4) cl, of dev "bgb_byte st1"] S carries_trans show ?thesis by auto
qed

text \<open>
  Over any number of rounds the link is the serial port of its specification, for every
  device whose operations leave the link alone.
\<close>

lemma bgb_rounds_carry:
  assumes "callback_transfer st = Some dev" and "callback_timestamp st = Some clk"
    and "\<And>c. off_link (bgb_socket st) (dev c)" and "\<And>t. off_link (bgb_socket st) (clk t)"
    and "run_state (bgb_rounds E n st) s = (Ret (True, st'), s')"
  shows "carries dev clk (bgb_socket st) (bgb_byte st) s (bgb_byte st') s'"
  using assms
proof (induction n arbitrary: st s)
  case 0
  then show ?case by (auto intro: carries_idle [of _ "[]"])
next
  case (Suc n)
  from Suc.prems(5) obtain st1 s1 where 1: "run_state (bgb_loop E st) s = (Ret (True, st1), s1)"
    and rest: "run_state (bgb_rounds E n st1) s1 = (Ret (True, st'), s')"
    by (auto simp: run_andthen split: prod.splits cres.splits if_splits)
  from bgb_loop_carries [OF Suc.prems(1-4) 1] Suc.IH [OF _ _ _ _ rest] Suc.prems(1-4) show ?case
    by (auto intro: carries_trans)
qed

end
