(* ===== verification/Mobile_User.thy ===== *)
theory Mobile_User
  imports Socket_Impl Bgb_Link
begin

text \<open>
  The host side of the adapter, the first half of \<open>source/main.c\<close>: \<open>struct mobile_user\<close>,
  the callbacks that main registers with libmobile (log, configuration file, timers,
  sockets, phone numbers), and the callbacks that main gives to the link.

  libmobile itself is a submodule whose sources are not here. Its constants are a
  parameter \<open>K\<close> of type \<open>mobile_consts\<close>; its functions are a parameter of the next theory.
\<close>

section \<open>The constants of libmobile\<close>

text \<open>\<open>zero_addr\<close> is a \<open>struct mobile_addr\<close> with all bytes zero.\<close>

record mobile_consts =
  MOBILE_MAX_CONNECTIONS :: nat
  MOBILE_MAX_TIMERS :: nat
  MOBILE_MAX_NUMBER_SIZE :: nat
  MOBILE_CONFIG_SIZE :: int
  MOBILE_DNS_PORT :: u32
  MOBILE_DEFAULT_P2P_PORT :: u32
  MOBILE_DEFAULT_RELAY_PORT :: u32
  MOBILE_RELAY_TOKEN_SIZE :: nat
  MOBILE_SERIAL_IDLE_BYTE :: byte
  MOBILE_ACTION_NONE :: u32
  MOBILE_ACTION_RESET_SERIAL :: u32
  MOBILE_ADAPTER_BLUE :: u32
  zero_addr :: mobile_addr

text \<open>\<open>NUMBER_OTHER\<close> stands for every other value of the enumeration.\<close>

datatype mobile_number = MOBILE_NUMBER_USER | MOBILE_NUMBER_PEER | NUMBER_OTHER

section \<open>Files\<close>

text \<open>
  A stream of the C library opened for reading and writing, as its user sees it: the
  bytes of the file, the position, and the size that the device lets the file grow to (a
  write past it is short). Writing behind the end fills the gap with zeros.
\<close>

record cfile =
  content :: "byte list"
  fpos :: nat
  room :: nat

definition fseek_set :: "int \<Rightarrow> cfile \<Rightarrow> cfile" where
  "fseek_set off f = (if off < 0 then f else f\<lparr>fpos := nat off\<rparr>)"

definition fseek_end :: "cfile \<Rightarrow> cfile" where
  "fseek_end f = f\<lparr>fpos := length (content f)\<rparr>"

definition fread :: "nat \<Rightarrow> cfile \<Rightarrow> byte list \<times> cfile" where
  "fread n f =
     (let bs = take n (drop (fpos f) (content f)) in (bs, f\<lparr>fpos := fpos f + length bs\<rparr>))"

definition overwrite :: "nat \<Rightarrow> byte list \<Rightarrow> byte list \<Rightarrow> byte list" where
  "overwrite i bs xs =
     (if bs = [] then xs
      else take i xs @ replicate (i - length xs) 0 @ bs @ drop (i + length bs) xs)"

definition fwrite :: "byte list \<Rightarrow> cfile \<Rightarrow> nat \<times> cfile" where
  "fwrite bs f =
     (let w = take (room f - fpos f) bs
      in (length w, f\<lparr>content := overwrite (fpos f) w (content f), fpos := fpos f + length w\<rparr>))"

section \<open>The state\<close>

text \<open>
  \<open>struct mobile_user\<close> after the connection table it contains; \<open>adapter\<close> is the memory
  behind \<open>struct mobile_adapter *\<close>, and \<open>stdout\<close> what was written to that stream. The
  arrays \<open>number_user\<close> and \<open>number_peer\<close> are kept with their terminators.
\<close>

record 'l mobile_user = sock_os +
  adapter :: 'l
  action :: u32
  config :: cfile
  reset :: bool
  bgb_clock :: u32
  bgb_clock_init :: bool
  bgb_clock_latch :: "u32 list"
  number_user :: string
  number_peer :: string
  stdout :: string

section \<open>Callbacks of libmobile\<close>

definition impl_debug_log :: "string \<Rightarrow> ('a os_scheme, unit) state" where
  "impl_debug_log line = eprint (line @ newline)"

text \<open>The result of the callback, and the bytes stored at \<open>dest\<close>.\<close>

definition impl_config_read :: "64 word \<Rightarrow> nat \<Rightarrow> (('l, 'a) mobile_user_scheme, bool \<times> byte list) state" where
  "impl_config_read offset n = do {
     modify (\<lambda>s. s\<lparr>config := fseek_set (sint offset) (config s)\<rparr>);
     f \<leftarrow> gets config;
     let (bs, f') = fread n f;
     modify (\<lambda>s. s\<lparr>config := f'\<rparr>);
     State_Monad.return (length bs = n, bs)
   }"

definition impl_config_write :: "byte list \<Rightarrow> 64 word \<Rightarrow> (('l, 'a) mobile_user_scheme, bool) state" where
  "impl_config_write src offset = do {
     modify (\<lambda>s. s\<lparr>config := fseek_set (sint offset) (config s)\<rparr>);
     f \<leftarrow> gets config;
     let (n, f') = fwrite src f;
     modify (\<lambda>s. s\<lparr>config := f'\<rparr>);
     State_Monad.return (n = length src)
   }"

definition impl_time_latch :: "nat \<Rightarrow> (('l, 'a) mobile_user_scheme, unit cres) state" where
  "impl_time_latch timer = do {
     latch \<leftarrow> gets bgb_clock_latch;
     if length latch \<le> timer then abort Out_of_bounds
     else do {
       modify (\<lambda>s. s\<lparr>bgb_clock_latch := latch[timer := bgb_clock s]\<rparr>);
       ret_ok ()
     }
   }"

text \<open>
  Division of doubles: the quotient of two natural numbers, both exactly representable
  and the quotient at least 1, rounded to 53 significant bits (ties to even). The result
  \<open>(m, k)\<close> is the double \<open>m / 2 ^ k\<close>. In \<open>impl_time_check_ms\<close> the dividend
  \<open>ms * 2 ^ 21\<close> has at most 32 significant bits, so the multiplication is exact.
\<close>

fun log2_floor :: "nat \<Rightarrow> nat" where
  "log2_floor n = (if n < 2 then 0 else Suc (log2_floor (n div 2)))"

declare log2_floor.simps [simp del]

definition round_half_even :: "nat \<Rightarrow> nat \<Rightarrow> nat" where
  "round_half_even a b =
     (let q = a div b; r = a mod b
      in if 2 * r < b \<or> 2 * r = b \<and> even q then q else Suc q)"

definition double_div :: "nat \<Rightarrow> nat \<Rightarrow> nat \<times> nat" where
  "double_div a b = (let k = 52 - log2_floor (a div b) in (round_half_even (a * 2 ^ k) b, k))"

text \<open>The conversion \<open>(uint32_t)\<close> of such a double; a value out of range is undefined.\<close>

definition double_to_u32 :: "nat \<times> nat \<Rightarrow> u32 cres" where
  "double_to_u32 d =
     (case d of (m, k) \<Rightarrow> if m div 2 ^ k < 2 ^ 32 then Ret (of_nat (m div 2 ^ k)) else Abort Bad_conversion)"

definition impl_time_check_ms :: "nat \<Rightarrow> u32 \<Rightarrow> (('l, 'a) mobile_user_scheme, bool cres) state" where
  "impl_time_check_ms timer ms = do {
     latch \<leftarrow> gets bgb_clock_latch;
     clock \<leftarrow> gets bgb_clock;
     if length latch \<le> timer then abort Out_of_bounds
     else State_Monad.return (case double_to_u32 (double_div (unat ms * 2 ^ 21) 1000) of
         Abort e \<Rightarrow> Abort e
       | Ret ticks \<Rightarrow> Ret (ticks \<le> (clock - latch ! timer) AND 0x7FFFFFFF))
   }"

definition impl_sock_open ::
    "os_env \<Rightarrow> nat \<Rightarrow> mobile_socktype \<Rightarrow> mobile_addrtype \<Rightarrow> u32 \<Rightarrow> ('a sock_os_scheme, bool cres) state" where
  "impl_sock_open E conn type addrtype bindport = socket_impl_open E conn type addrtype bindport"

definition impl_sock_close :: "os_env \<Rightarrow> nat \<Rightarrow> ('a sock_os_scheme, unit cres) state" where
  "impl_sock_close E conn = socket_impl_close E conn"

definition impl_sock_connect :: "os_env \<Rightarrow> nat \<Rightarrow> mobile_addr option \<Rightarrow> ('a sock_os_scheme, int cres) state" where
  "impl_sock_connect E conn addr = socket_impl_connect E conn addr"

definition impl_sock_listen :: "os_env \<Rightarrow> nat \<Rightarrow> ('a sock_os_scheme, bool cres) state" where
  "impl_sock_listen E conn = socket_impl_listen E conn"

definition impl_sock_accept :: "os_env \<Rightarrow> nat \<Rightarrow> ('a sock_os_scheme, bool cres) state" where
  "impl_sock_accept E conn = socket_impl_accept E conn"

definition impl_sock_send ::
    "os_env \<Rightarrow> nat \<Rightarrow> byte list \<Rightarrow> mobile_addr option \<Rightarrow> ('a sock_os_scheme, int cres) state" where
  "impl_sock_send E conn data addr = socket_impl_send E conn data addr"

definition impl_sock_recv ::
    "os_env \<Rightarrow> nat \<Rightarrow> nat option \<Rightarrow> mobile_addr option \<Rightarrow>
     ('a sock_os_scheme, (int \<times> byte list \<times> mobile_addr option) cres) state" where
  "impl_sock_recv E conn buf addr = socket_impl_recv E conn buf addr"

section \<open>The terminal title and the phone numbers\<close>

text \<open>
  \<open>i += swprintf(title + i, 0x100 - i, ...)\<close> with the text \<open>t\<close> to be printed, for a buffer
  that holds \<open>title\<close> so far. The call succeeds when the text and its terminator fit and
  every character converts (ASCII does in every locale); otherwise it returns -1 and
  leaves the buffer unspecified.
\<close>

definition title_size :: nat where
  "title_size = 0x100"

definition swprintf_at :: "string \<Rightarrow> string \<Rightarrow> string cres" where
  "swprintf_at title t =
     (if length t < title_size - length title \<and> (\<forall>c \<in> set t. of_char c < (128 :: nat))
      then Ret (title @ t) else Abort Unspecified)"

definition update_title :: "(('l, 'a) mobile_user_scheme, unit cres) state" where
  "update_title = do {
     peer \<leftarrow> gets (\<lambda>s. cstr (number_peer s));
     user \<leftarrow> gets (\<lambda>s. cstr (number_user s));
     andthen (State_Monad.return (swprintf_at [] ''Mobile Adapter - '')) (\<lambda>title.
     andthen (State_Monad.return (if peer \<noteq> [] then swprintf_at title (''Call: '' @ peer)
         else swprintf_at title ''Disconnected'')) (\<lambda>title.
     andthen (State_Monad.return (if user \<noteq> [] then swprintf_at title ('' (Your number: '' @ user @ '')'')
         else Ret title)) (\<lambda>title. do {
       modify (\<lambda>s. s\<lparr>stdout := stdout s @ [CHR 0x1B] @ '']0;'' @ title @ [CHR 0x07]\<rparr>);
       ret_ok ()
     })))
   }"

text \<open>\<open>strncpy(dest, number, n); dest[n] = 0\<close> for an array of \<open>n + 1\<close> characters.\<close>

definition strncpy_term :: "nat \<Rightarrow> string \<Rightarrow> string" where
  "strncpy_term n number =
     take n (cstr number) @ replicate (n - length (cstr number)) (CHR 0x00) @ [CHR 0x00]"

definition new_number :: "nat \<Rightarrow> string option \<Rightarrow> string \<Rightarrow> string" where
  "new_number n number dest =
     (case number of Some num \<Rightarrow> strncpy_term n num | None \<Rightarrow> dest[0 := CHR 0x00])"

definition impl_update_number ::
    "mobile_consts \<Rightarrow> mobile_number \<Rightarrow> string option \<Rightarrow> (('l, 'a) mobile_user_scheme, unit cres) state" where
  "impl_update_number K type number =
     (let n = MOBILE_MAX_NUMBER_SIZE K in
      case type of
        MOBILE_NUMBER_USER \<Rightarrow> do {
          modify (\<lambda>s. s\<lparr>number_user := new_number n number (number_user s)\<rparr>);
          update_title
        }
      | MOBILE_NUMBER_PEER \<Rightarrow> do {
          modify (\<lambda>s. s\<lparr>number_peer := new_number n number (number_peer s)\<rparr>);
          update_title
        }
      | NUMBER_OTHER \<Rightarrow> abort Assertion_failed)"

section \<open>Actions and time stamps\<close>

definition filter_actions :: "mobile_consts \<Rightarrow> u32 \<Rightarrow> u32" where
  "filter_actions K actions = actions AND NOT (MOBILE_ACTION_RESET_SERIAL K)"

definition bgb_loop_timestamp :: "u32 \<Rightarrow> (('l, 'a) mobile_user_scheme, unit) state" where
  "bgb_loop_timestamp t = do {
     clock \<leftarrow> gets bgb_clock;
     let diff = (t - clock) AND 0x7FFFFFFF;
     when_st (diff > 0x1000) (do {
       eprint (''[BGB] Emulator reset detected! Resetting adapter'' @ newline);
       modify (\<lambda>s. s\<lparr>reset := True\<rparr>)
     });
     modify (\<lambda>s. s\<lparr>bgb_clock := t\<rparr>)
   }"

definition bgb_loop_timestamp_init :: "u32 \<Rightarrow> (('l, 'a) mobile_user_scheme, unit) state" where
  "bgb_loop_timestamp_init t = modify (\<lambda>s. s\<lparr>bgb_clock := t, bgb_clock_init := True\<rparr>)"

section \<open>Timers\<close>

lemma log2_floor_bounds: "0 < n \<Longrightarrow> 2 ^ log2_floor n \<le> n \<and> n < 2 ^ Suc (log2_floor n)"
proof (induction n rule: log2_floor.induct)
  case (1 n)
  show ?case
  proof (cases "n < 2")
    case True
    with 1 show ?thesis by (simp add: log2_floor.simps)
  next
    case False
    with 1 have "2 ^ log2_floor (n div 2) \<le> n div 2" "n div 2 < 2 ^ Suc (log2_floor (n div 2))" by auto
    with False show ?thesis by (subst (1 2) log2_floor.simps) auto
  qed
qed

lemma log2_floor_less:
  assumes "n < 2 ^ m" and "0 < m"
  shows "log2_floor n < m"
proof (cases "n = 0")
  case True
  with assms show ?thesis by (simp add: log2_floor.simps)
next
  case False
  with log2_floor_bounds [of n] assms have "(2 :: nat) ^ log2_floor n < 2 ^ m" by linarith
  then show ?thesis by simp
qed

lemma round_half_even_ge: "0 < b \<Longrightarrow> c * b \<le> a \<Longrightarrow> c \<le> round_half_even a b"
  by (auto simp: round_half_even_def Let_def less_eq_div_iff_mult_less_eq le_SucI)

lemma round_half_even_less:
  assumes "0 < b" and "2 * a + b < 2 * c * b"
  shows "round_half_even a b < c"
proof -
  consider "round_half_even a b = a div b" | "round_half_even a b = Suc (a div b)" "b \<le> 2 * (a mod b)"
    by (cases "2 * (a mod b) < b \<or> 2 * (a mod b) = b \<and> even (a div b)") (auto simp: round_half_even_def Let_def)
  then have "2 * (round_half_even a b * b) \<le> 2 * a + b"
  proof cases
    case 1
    then show ?thesis unfolding 1 using div_mult_mod_eq [of a b] by linarith
  next
    case 2
    have "Suc (a div b) * b = b + a div b * b" by simp
    then show ?thesis unfolding 2(1) using 2(2) div_mult_mod_eq [of a b] by linarith
  qed
  with assms(2) have "round_half_even a b * b < c * b" by linarith
  then show ?thesis by simp
qed

text \<open>
  Rounding does not move a quotient by 1000 across an integer: the dividend is a multiple
  of 8, so the quotient stays \<open>1 / 125\<close> below the next integer, and doubles of this size
  are at most \<open>2 ^ (- 20)\<close> apart.
\<close>

lemma double_div_trunc:
  assumes "ms < 2048000" and "double_div (ms * 2 ^ 21) 1000 = (m, k)"
  shows "m div 2 ^ k = ms * 2 ^ 21 div 1000"
proof -
  let ?a = "ms * 2 ^ 21"
  have k: "k = 52 - log2_floor (?a div 1000)" and m: "m = round_half_even (?a * 2 ^ k) 1000"
    using assms(2) by (auto simp: double_div_def Let_def)
  from assms(1) have "?a div 1000 < 2 ^ 32" by (simp add: less_mult_imp_div_less)
  from log2_floor_less [OF this] k have "7 \<le> k" by simp
  then have "(2 :: nat) ^ 7 \<le> 2 ^ k" by (intro power_increasing) auto
  then have k7: "128 \<le> (2 :: nat) ^ k" by simp
  have "8 dvd ?a mod 1000" by (intro dvd_mod) simp_all
  then obtain j where "?a mod 1000 = 8 * j" ..
  moreover have "?a mod 1000 < 1000" by simp
  moreover have "x = 8 * j \<Longrightarrow> x < 1000 \<Longrightarrow> x \<le> 992" for x :: nat by presburger
  ultimately have mod: "?a mod 1000 \<le> 992" by blast
  have mod_eq: "?a = ?a div 1000 * 1000 + ?a mod 1000" by (simp only: div_mult_mod_eq)
  have eight: "x = q * 1000 + r \<Longrightarrow> r \<le> 992 \<Longrightarrow> x + 8 \<le> Suc q * 1000" for x q r :: nat by simp
  have "?a div 1000 * 2 ^ k \<le> m"
    unfolding m
  proof (rule round_half_even_ge)
    have "?a div 1000 * 1000 \<le> ?a" by (rule div_times_less_eq_dividend)
    then have "?a div 1000 * 1000 * 2 ^ k \<le> ?a * 2 ^ k" by (rule mult_le_mono1)
    then show "?a div 1000 * 2 ^ k * 1000 \<le> ?a * 2 ^ k" by (simp only: mult.assoc mult.commute)
  qed simp
  moreover have "m < Suc (?a div 1000) * 2 ^ k"
    unfolding m
  proof (rule round_half_even_less)
    have "?a + 8 \<le> Suc (?a div 1000) * 1000" using eight [OF mod_eq mod] .
    then have "(?a + 8) * 2 ^ k \<le> Suc (?a div 1000) * 1000 * 2 ^ k" by (rule mult_le_mono1)
    then show "2 * (?a * 2 ^ k) + 1000 < 2 * (Suc (?a div 1000) * 2 ^ k) * 1000"
      using k7 by (simp only: add_mult_distrib)
  qed simp
  ultimately show ?thesis
    by (simp add: div_nat_eqI mult.commute)
qed

lemma double_div_large:
  assumes "2048000 \<le> ms" and "double_div (ms * 2 ^ 21) 1000 = (m, k)"
  shows "2 ^ 32 \<le> m div 2 ^ k"
proof -
  have "m = round_half_even (ms * 2 ^ 21 * 2 ^ k) 1000"
    using assms(2) by (auto simp: double_div_def Let_def)
  moreover have "2 ^ 32 * 2 ^ k * 1000 \<le> ms * 2 ^ 21 * (2 ^ k :: nat)"
    using assms(1) by simp
  ultimately have "2 ^ 32 * 2 ^ k \<le> m"
    by (simp only: round_half_even_ge)
  then show ?thesis by (simp add: less_eq_div_iff_mult_less_eq)
qed

lemma ticks_of_ms:
  "double_to_u32 (double_div (unat (ms :: u32) * 2 ^ 21) 1000) =
     (if unat ms < 2048000 then Ret (of_nat (unat ms * 2 ^ 21 div 1000)) else Abort Bad_conversion)"
proof -
  obtain m k where d: "double_div (unat ms * 2 ^ 21) 1000 = (m, k)" by fastforce
  show ?thesis
  proof (cases "unat ms < 2048000")
    case True
    then have "unat ms * 2 ^ 21 div 1000 < 2 ^ 32" by (simp add: less_mult_imp_div_less)
    with True double_div_trunc [OF True d] show ?thesis unfolding d by (simp add: double_to_u32_def)
  next
    case False
    with double_div_large [OF _ d] show ?thesis unfolding d by (simp add: double_to_u32_def)
  qed
qed

lemma ticks_le_iff:
  assumes "n < 2 ^ 32"
  shows "(of_nat n :: u32) \<le> x AND 0x7FFFFFFF \<longleftrightarrow> n \<le> unat x mod 2 ^ 31"
proof -
  have "unat (of_nat n :: u32) = n" using assms by (simp add: unsigned_of_nat take_bit_nat_eq_self)
  then show ?thesis by (simp only: word_le_nat_alt mask31_unat)
qed

lemma run_time_check:
  assumes "timer < length (bgb_clock_latch s)"
  shows "run_state (impl_time_check_ms timer ms) s =
    (if unat ms < 2048000
     then Ret (unat ms * 2 ^ 21 div 1000 \<le> unat (bgb_clock s - bgb_clock_latch s ! timer) mod 2 ^ 31)
     else Abort Bad_conversion, s)"
proof -
  have "unat ms * 2 ^ 21 div 1000 < 2 ^ 32" if "unat ms < 2048000"
    using that by (simp add: less_mult_imp_div_less)
  then show ?thesis
    using assms unfolding impl_time_check_ms_def ticks_of_ms by (simp only: run_state_bind run_gets prod.case split: if_split) (simp add: ticks_le_iff)
qed

text \<open>C11.
  A timer measures time: when the emulator's clock has advanced by \<open>d\<close> ticks of
  \<open>2 ^ (- 21)\<close> seconds since the latch, wherever the 32-bit clock wraps around, the test
  for \<open>ms\<close> milliseconds succeeds exactly when \<open>d\<close> has reached \<open>ms * 2 ^ 21 / 1000\<close>,
  rounded down; the rounding of the floating-point division never shows. From 2048000 ms
  (about 34 minutes) on, the conversion to \<open>uint32_t\<close> is out of range.
\<close>

theorem timer_measures_ticks:
  assumes "timer < length (bgb_clock_latch s)" and "d < 2 ^ 31"
  shows "result (andthen (impl_time_latch timer) (\<lambda>_. do {
       modify (\<lambda>s. s\<lparr>bgb_clock := bgb_clock s + of_nat d\<rparr>);
       impl_time_check_ms timer ms
     })) s =
    (if unat ms < 2048000 then Ret (unat ms * 2 ^ 21 div 1000 \<le> d) else Abort Bad_conversion)"
proof -
  have "unat (of_nat d :: u32) = d"
    using assms(2) by (simp add: unsigned_of_nat take_bit_nat_eq_self)
  with assms show ?thesis
    by (simp add: result_def run_andthen impl_time_latch_def run_time_check)
qed

definition user_lab :: "unit mobile_user" where
  "user_lab = \<lparr>trace = [], errno = 0, stderr = [], sockets = [- 1, - 1], adapter = (), action = 0,
     config = \<lparr>content = [1, 2, 3, 4], fpos = 0, room = 100\<rparr>, reset = False, bgb_clock = 0xFFFFFFF0,
     bgb_clock_init = True, bgb_clock_latch = [0, 0], number_user = replicate 5 (CHR 0x00),
     number_peer = replicate 5 (CHR 0x00), stdout = []\<rparr>"

theorem timer_measures_ticks_witness:
  "result (andthen (impl_time_latch 1) (\<lambda>_. do {
       modify (\<lambda>s. s\<lparr>bgb_clock := bgb_clock s + of_nat 2097\<rparr>);
       impl_time_check_ms 1 1
     })) user_lab = Ret True"
  using timer_measures_ticks [of 1 user_lab 2097 1] by (simp add: user_lab_def)



section \<open>The configuration file\<close>

lemma length_overwrite: "length (overwrite i bs xs) = (if bs = [] then length xs else max (length xs) (i + length bs))"
  by (auto simp: overwrite_def)

lemma nth_overwrite:
  assumes "j < length (overwrite i bs xs)"
  shows "overwrite i bs xs ! j =
    (if i \<le> j \<and> j < i + length bs then bs ! (j - i) else if j < length xs then xs ! j else 0)"
  using assms by (auto simp: overwrite_def nth_append min_def split: if_splits)

lemma nth_overwrite_old:
  "j < length xs \<Longrightarrow> j < i \<or> i + length bs \<le> j \<Longrightarrow> overwrite i bs xs ! j = xs ! j"
  by (subst nth_overwrite) (auto simp: length_overwrite less_max_iff_disj)

lemma take_drop_eqI:
  assumes "i + n \<le> length xs" and "length ys = n" and "\<And>j. j < n \<Longrightarrow> xs ! (i + j) = ys ! j"
  shows "take n (drop i xs) = ys"
  using assms by (intro nth_equalityI) auto

lemma sint_offset:
  assumes "unat (offset :: 64 word) < 2 ^ 63"
  shows "sint offset = int (unat offset)"
proof -
  have "int (unat offset) < 2 ^ 63" using assms by (metis of_nat_less_numeral_power_cancel_iff)
  moreover have "- (2 ^ 63) \<le> int (unat offset)" by (rule order_trans [of _ 0]) simp_all
  ultimately have "signed_take_bit 63 (int (unat offset)) = int (unat offset)"
    by (intro signed_take_bit_int_eq_self)
  then show ?thesis by (simp add: sint_uint)
qed

lemma run_config_read:
  assumes "unat offset < 2 ^ 63"
  shows "run_state (impl_config_read offset n) s =
    (let bs = take n (drop (unat offset) (content (config s)))
     in ((length bs = n, bs), s\<lparr>config := (config s)\<lparr>fpos := unat offset + length bs\<rparr>\<rparr>))"
  by (simp add: impl_config_read_def sint_offset [OF assms] fseek_set_def fread_def Let_def)

lemma run_config_write:
  assumes "unat offset + length src \<le> room (config s)" and "unat offset < 2 ^ 63"
  shows "run_state (impl_config_write src offset) s =
    (True, s\<lparr>config := (config s)\<lparr>content := overwrite (unat offset) src (content (config s)),
       fpos := unat offset + length src\<rparr>\<rparr>)"
  using assms(1)
  by (simp add: impl_config_write_def sint_offset [OF assms(2)] fseek_set_def fwrite_def Let_def)

text \<open>C18.
  The configuration file is a store of bytes: a write that the device has room for
  succeeds; a later read of the same range returns what was written, a read of any range
  that does not overlap it, within what the file held before, returns what it would have
  returned before, and the file only grows.
\<close>

theorem config_write_read:
  assumes "unat offset + length src \<le> room (config s)" and "unat offset < 2 ^ 63" and "unat off < 2 ^ 63"
  shows "result (impl_config_write src offset) s = True \<and>
    result (impl_config_read offset (length src)) (exec (impl_config_write src offset) s) = (True, src) \<and>
    (unat off + n \<le> unat offset \<or> unat offset + length src \<le> unat off \<longrightarrow> unat off + n \<le> length (content (config s)) \<longrightarrow>
      result (impl_config_read off n) (exec (impl_config_write src offset) s) = result (impl_config_read off n) s) \<and>
    length (content (config s)) \<le> length (content (config (exec (impl_config_write src offset) s)))"
proof -
  let ?c = "content (config s)"
  let ?c' = "overwrite (unat offset) src ?c"
  have "take (length src) (drop (unat offset) ?c') = src"
  proof (cases "src = []")
    case False
    then show ?thesis by (intro take_drop_eqI) (simp_all add: length_overwrite nth_overwrite)
  qed simp
  moreover have "take n (drop (unat off) ?c') = take n (drop (unat off) ?c)"
    if "unat off + n \<le> unat offset \<or> unat offset + length src \<le> unat off" "unat off + n \<le> length ?c"
    using that by (intro take_drop_eqI) (auto simp: length_overwrite nth_overwrite_old)
  ultimately show ?thesis
    using assms by (simp add: result_def exec_def run_config_write run_config_read Let_def length_overwrite)
qed

theorem config_write_read_witness:
  "result (impl_config_read 1 (length [7, 8 :: byte])) (exec (impl_config_write [7, 8] 1) user_lab) = (True, [7, 8])"
  using config_write_read [of 1 "[7, 8]" user_lab 0 1] by (simp add: user_lab_def)

section \<open>Phone numbers\<close>

text \<open>What the arrays of the struct hold: a terminated ASCII string.\<close>

definition ascii :: "string \<Rightarrow> bool" where
  "ascii t \<longleftrightarrow> (\<forall>c \<in> set t. of_char c < (128 :: nat))"

definition number_ok :: "nat \<Rightarrow> string \<Rightarrow> bool" where
  "number_ok n a \<longleftrightarrow> length a = Suc n \<and> CHR 0x00 \<in> set a \<and> ascii (cstr a)"

definition user_ok :: "mobile_consts \<Rightarrow> ('l, 'a) mobile_user_scheme \<Rightarrow> bool" where
  "user_ok K s \<longleftrightarrow> length (bgb_clock_latch s) = MOBILE_MAX_TIMERS K \<and>
     number_ok (MOBILE_MAX_NUMBER_SIZE K) (number_user s) \<and> number_ok (MOBILE_MAX_NUMBER_SIZE K) (number_peer s)"

text \<open>Numbers so short that the title always fits.\<close>

definition title_fits :: "mobile_consts \<Rightarrow> bool" where
  "title_fits K \<longleftrightarrow> 2 * MOBILE_MAX_NUMBER_SIZE K + 39 < title_size"

definition title_text :: "string \<Rightarrow> string \<Rightarrow> string" where
  "title_text user peer = ''Mobile Adapter - '' @ (if peer = [] then ''Disconnected'' else ''Call: '' @ peer) @
     (if user = [] then [] else '' (Your number: '' @ user @ '')'')"

definition title_escape :: "string \<Rightarrow> string" where
  "title_escape t = [CHR 0x1B] @ '']0;'' @ t @ [CHR 0x07]"

lemma length_cstr: "length (cstr a) \<le> length a" and cstr_short: "CHR 0x00 \<in> set a \<Longrightarrow> length (cstr a) < length a"
  by (induction a) (auto simp: cstr_def)

lemma number_ok_length: "number_ok n a \<Longrightarrow> length (cstr a) \<le> n"
  using cstr_short [of a] by (auto simp: number_ok_def)

lemma run_update_title:
  assumes "title_fits K" and "user_ok K s"
  shows "run_state update_title s =
    (Ret (), s\<lparr>stdout := stdout s @ title_escape (title_text (cstr (number_user s)) (cstr (number_peer s)))\<rparr>)"
proof -
  have len: "length (cstr (number_user s)) \<le> MOBILE_MAX_NUMBER_SIZE K" "length (cstr (number_peer s)) \<le> MOBILE_MAX_NUMBER_SIZE K"
    and asc: "ascii (cstr (number_user s))" "ascii (cstr (number_peer s))"
    using assms(2) number_ok_length by (auto simp: user_ok_def number_ok_def)
  show ?thesis
    using assms(1) len asc
    by (auto simp: update_title_def run_andthen swprintf_at_def title_size_def title_fits_def title_text_def
        title_escape_def ascii_def)
qed

lemma cstr_strncpy_term: "cstr (strncpy_term n t) = take n (cstr t)"
proof -
  have "CHR 0x00 \<notin> set (take n (cstr t))"
    by (auto simp: cstr_def dest: in_set_takeD set_takeWhileD)
  then have "cstr (take n (cstr t) @ rest) = take n (cstr t) @ cstr rest" for rest
    unfolding cstr_def by (intro takeWhile_append2) auto
  moreover have "cstr (replicate m (CHR 0x00) @ [CHR 0x00]) = []" for m
    by (cases m) (simp_all add: cstr_def)
  ultimately show ?thesis by (simp add: strncpy_term_def)
qed

lemma number_ok_new:
  assumes "number_ok n a" and "\<And>t. num = Some t \<Longrightarrow> ascii (cstr t)"
  shows "number_ok n (new_number n num a)"
    and "cstr (new_number n num a) = (case num of Some t \<Rightarrow> take n (cstr t) | None \<Rightarrow> [])"
proof -
  have "cstr (a[0 := CHR 0x00]) = []" and "CHR 0x00 \<in> set (a[0 := CHR 0x00])"
    using assms(1) by (cases a; simp add: number_ok_def cstr_def)+
  then show "number_ok n (new_number n num a)"
    and "cstr (new_number n num a) = (case num of Some t \<Rightarrow> take n (cstr t) | None \<Rightarrow> [])"
    using assms by (auto simp: number_ok_def new_number_def cstr_strncpy_term ascii_def dest: in_set_takeD
        split: option.splits) (auto simp: strncpy_term_def)
qed

lemma run_update_number:
  assumes "user_ok K s" and "title_fits K" and "\<And>t. num = Some t \<Longrightarrow> ascii (cstr t)" and "type \<noteq> NUMBER_OTHER"
    and "run_state (impl_update_number K type num) s = (a, s')"
  shows "a = Ret () \<and> user_ok K s' \<and>
    (let new = (case num of Some t \<Rightarrow> take (MOBILE_MAX_NUMBER_SIZE K) (cstr t) | None \<Rightarrow> [])
     in cstr (number_user s') = (if type = MOBILE_NUMBER_USER then new else cstr (number_user s)) \<and>
        cstr (number_peer s') = (if type = MOBILE_NUMBER_PEER then new else cstr (number_peer s))) \<and>
    stdout s' = stdout s @ title_escape (title_text (cstr (number_user s')) (cstr (number_peer s')))"
proof -
  let ?n = "MOBILE_MAX_NUMBER_SIZE K"
  note new = number_ok_new [where n = ?n and num = num, OF _ assms(3)]
  have ok: "user_ok K (s\<lparr>number_user := new_number ?n num (number_user s)\<rparr>)"
    "user_ok K (s\<lparr>number_peer := new_number ?n num (number_peer s)\<rparr>)"
    using assms(1) new(1) by (auto simp: user_ok_def)
  show ?thesis
    using assms(4,5) ok new(2) assms(1)
    by (cases type) (auto simp: impl_update_number_def run_update_title [OF assms(2)] user_ok_def)
qed

text \<open>C26.
  A phone number that libmobile reports is kept in its array, cut to the array's size and
  always terminated, the other number is untouched, and the new title with both numbers
  is written to the terminal, complete: the title fits its buffer when numbers have at
  most 108 digits. No number clears the entry.
\<close>

theorem update_number_shown:
  assumes "user_ok K s" and "title_fits K" and "\<And>t. num = Some t \<Longrightarrow> ascii (cstr t)" and "type \<noteq> NUMBER_OTHER"
    and "run_state (impl_update_number K type num) s = (a, s')"
  shows "a = Ret () \<and> user_ok K s' \<and>
    (let new = (case num of Some t \<Rightarrow> take (MOBILE_MAX_NUMBER_SIZE K) (cstr t) | None \<Rightarrow> [])
     in cstr (number_user s') = (if type = MOBILE_NUMBER_USER then new else cstr (number_user s)) \<and>
        cstr (number_peer s') = (if type = MOBILE_NUMBER_PEER then new else cstr (number_peer s))) \<and>
    stdout s' = stdout s @ title_escape (title_text (cstr (number_user s')) (cstr (number_peer s')))"
  by (rule run_update_number [OF assms])

definition consts_lab :: mobile_consts where
  "consts_lab = \<lparr>MOBILE_MAX_CONNECTIONS = 2, MOBILE_MAX_TIMERS = 2, MOBILE_MAX_NUMBER_SIZE = 4,
     MOBILE_CONFIG_SIZE = 8, MOBILE_DNS_PORT = 53, MOBILE_DEFAULT_P2P_PORT = 1027,
     MOBILE_DEFAULT_RELAY_PORT = 31227, MOBILE_RELAY_TOKEN_SIZE = 2, MOBILE_SERIAL_IDLE_BYTE = 0xD2,
     MOBILE_ACTION_NONE = 0, MOBILE_ACTION_RESET_SERIAL = 4, MOBILE_ADAPTER_BLUE = 8,
     zero_addr = \<lparr>addr_type = ADDRTYPE_OTHER, addr_port = 0, addr_host = []\<rparr>\<rparr>"

lemma user_ok_lab: "user_ok consts_lab user_lab" and title_fits_lab: "title_fits consts_lab"
  by code_simp+

theorem update_number_shown_witness:
  "cstr (number_user (exec (impl_update_number consts_lab MOBILE_NUMBER_USER (Some ''123456'')) user_lab)) = ''1234''"
proof -
  have "ascii (cstr ''123456'')" and t: "take 4 (cstr ''123456'') = ''1234''" by code_simp+
  with update_number_shown [OF user_ok_lab title_fits_lab _ _ run_state_pair, of "Some ''123456''" MOBILE_NUMBER_USER]
  show ?thesis by (simp add: Let_def t consts_lab_def)
qed

section \<open>The clock\<close>

text \<open>
  What the link expects of a time-stamp callback: it keeps the time it is given in a
  clock, and printing messages does not disturb that clock. Then the clock always shows
  the link's last accepted time stamp.
\<close>

definition in_step :: "('s \<Rightarrow> u32) \<Rightarrow> 's bgb_state \<Rightarrow> 's \<Rightarrow> bool" where
  "in_step clock st s \<longleftrightarrow> (timestamp_init st \<longrightarrow> clock s = timestamp_last st)"

locale clock_callback =
  fixes cb :: "u32 \<Rightarrow> ('a os_scheme, unit) state" and clock :: "'a os_scheme \<Rightarrow> u32"
  assumes sets: "clock (exec (cb t) s) = t"
    and undisturbed: "clock (s\<lparr>stderr := x\<rparr>) = clock s"
begin

lemma clock_in_step:
  assumes "callback_timestamp st = Some cb" and "in_step clock st s"
    and "run_state (bgb_loop_clock st cur) s = (st', s')"
  shows "in_step clock st' s'" and "timestamp_init st'"
  using assms by (auto simp: run_loop_clock in_step_def sets undisturbed split: if_splits)

lemma clock_follows:
  assumes "callback_timestamp st = Some cb" and "in_step clock st s" and "\<not> went_back (timestamp_last st) cur"
    and "run_state (bgb_loop_clock st cur) s = (st', s')"
  shows "clock s' = cur"
  using assms by (auto simp: run_loop_clock in_step_def sets undisturbed split: if_splits)

end

lemma run_timestamp:
  "run_state (bgb_loop_timestamp t) s =
     (let late = 0x1000 < (2 ^ 32 + unat t - unat (bgb_clock s)) mod 2 ^ 31 in
      ((), s\<lparr>bgb_clock := t, reset := reset s \<or> late,
         stderr := stderr s @ (if late then ''[BGB] Emulator reset detected! Resetting adapter'' @ newline else [])\<rparr>))"
proof -
  have "(0x1000 < (t - bgb_clock s) AND 0x7FFFFFFF) = (0x1000 < (2 ^ 32 + unat t - unat (bgb_clock s)) mod 2 ^ 31)"
    by (simp only: word_less_nat_alt mask31_unat unat_diff_mod) simp
  then show ?thesis by (simp add: bgb_loop_timestamp_def Let_def)
qed

interpretation running_clock: clock_callback bgb_loop_timestamp bgb_clock
  by unfold_locales (simp_all add: exec_def run_timestamp Let_def)

interpretation starting_clock: clock_callback bgb_loop_timestamp_init bgb_clock
  by unfold_locales (simp_all add: exec_def bgb_loop_timestamp_init_def)

lemma went_back_iff_ahead:
  "went_back old cur \<longleftrightarrow> 2 ^ 31 - 256 \<le> (2 ^ 32 + unat cur - unat old) mod 2 ^ 31"
proof -
  let ?b = "(2 ^ 32 + unat old - unat cur) mod 2 ^ 31" and ?f = "(2 ^ 32 + unat cur - unat old) mod 2 ^ 31"
  have "unat old < 2 ^ 32" "unat cur < 2 ^ 32" using unsigned_less [of old] unsigned_less [of cur] by simp_all
  then have "(?b + ?f) mod 2 ^ 31 = 0" unfolding mod_add_eq by simp
  then obtain q where q: "?b + ?f = 2 ^ 31 * q" by blast
  have less: "?b < 2 ^ 31" "?f < 2 ^ 31" by simp_all
  have "x + y = M * q \<Longrightarrow> x < M \<Longrightarrow> y < M \<Longrightarrow> x = 0 \<and> y = 0 \<or> x + y = M" for x y M :: nat
    by (cases q; cases "q - 1") auto
  moreover have "x = 0 \<and> y = 0 \<or> x + y = 2 ^ 31 \<Longrightarrow> y < 2 ^ 31 \<Longrightarrow> (x \<in> {1..256}) = (2 ^ 31 - 256 \<le> y)"
    for x y :: nat by auto
  ultimately show ?thesis unfolding went_back_def using q less by blast
qed

text \<open>C8.
  Link and host together: while the clock is running, a packet's time stamp makes the
  host reset the adapter exactly when it is more than \<open>0x1000\<close> ticks ahead of the last one,
  modulo \<open>2 ^ 31\<close>, and not merely up to \<open>0x100\<close> ticks behind it; the host's clock shows the link's
  last time stamp before and after.
\<close>

theorem adapter_reset_iff_jump:
  assumes "callback_timestamp st = Some bgb_loop_timestamp" and "timestamp_init st" and "bgb_clock s = timestamp_last st"
    and "run_state (bgb_loop_clock st cur) s = (st', s')"
  shows "reset s' = (reset s \<or>
      (let ahead = (2 ^ 32 + unat cur - unat (timestamp_last st)) mod 2 ^ 31 in 0x1000 < ahead \<and> ahead < 2 ^ 31 - 0x100)) \<and>
    bgb_clock s' = timestamp_last st' \<and>
    timestamp_last st' = (if went_back (timestamp_last st) cur then timestamp_last st else cur)"
proof -
  have "bgb_clock s' = timestamp_last st'"
    using running_clock.clock_in_step [OF assms(1) _ assms(4)] assms(2,3) by (simp add: in_step_def)
  moreover have "reset s' = (reset s \<or>
      (let ahead = (2 ^ 32 + unat cur - unat (timestamp_last st)) mod 2 ^ 31 in 0x1000 < ahead \<and> \<not> went_back (timestamp_last st) cur))"
    using assms by (auto simp: run_loop_clock exec_def run_timestamp Let_def split: if_splits)
  moreover have "timestamp_last st' = (if went_back (timestamp_last st) cur then timestamp_last st else cur)"
    using assms by (auto simp: run_loop_clock split: if_splits)
  ultimately show ?thesis by (simp only: went_back_iff_ahead not_le Let_def)
qed

definition link_user :: "u32 \<Rightarrow> bool \<Rightarrow> unit mobile_user bgb_state" where
  "link_user t i = \<lparr>bgb_socket = 5, bgb_byte = 0xD2, callback_transfer = None,
     callback_timestamp = Some bgb_loop_timestamp, timestamp_last = t, timestamp_init = i\<rparr>"

theorem adapter_reset_iff_jump_witness:
  "reset (exec (bgb_loop_clock (link_user 0xFFFFFFF0 True) 0x2000) user_lab) \<and>
   \<not> reset (exec (bgb_loop_clock (link_user 0xFFFFFFF0 True) 0xFFFFFF80) user_lab)"
  using adapter_reset_iff_jump [where st = "link_user 0xFFFFFFF0 True" and s = user_lab and cur = "0x2000", OF _ _ _ run_state_pair]
    adapter_reset_iff_jump [where st = "link_user 0xFFFFFFF0 True" and s = user_lab and cur = "0xFFFFFF80", OF _ _ _ run_state_pair]
  by (simp add: link_user_def user_lab_def)

end
