(* ===== verification/Mobile_Host.thy ===== *)
theory Mobile_Host
  imports Mobile_User Socket_Contract
begin

text \<open>
  The program and libmobile, which call each other: main calls the library's functions,
  and these call back into the host. A library function is a parameter of the
  model; a run of it is a tree (\<open>prog\<close>) that either finishes or invokes a callback and
  continues with what the callback answers. Trees are well-founded, so a library
  function is taken to return after finitely many callbacks.

  \<open>obeys\<close> is the protocol between the two: connections are opened when free and used when
  open, timers are in range, and so on. The host keeps its invariant and never aborts under
  every library that obeys it. \<open>history\<close> is what holds for every library at all.
\<close>

section \<open>Callbacks\<close>

datatype callback =
    Debug_log string
  | Config_read "64 word" nat
  | Config_write "byte list" "64 word"
  | Time_latch nat
  | Time_check_ms nat u32
  | Sock_open nat mobile_socktype mobile_addrtype u32
  | Sock_close nat
  | Sock_connect nat "mobile_addr option"
  | Sock_listen nat
  | Sock_accept nat
  | Sock_send nat "byte list" "mobile_addr option"
  | Sock_recv nat "nat option" "mobile_addr option"
  | Update_number mobile_number "string option"

datatype answer =
    A_void
  | A_bool bool
  | A_int int
  | A_read bool "byte list"
  | A_recv int "byte list" "mobile_addr option"

definition answered :: "('b \<Rightarrow> answer) \<Rightarrow> ('s, 'b cres) state \<Rightarrow> ('s, answer cres) state" where
  "answered f m = andthen m (\<lambda>x. ret_ok (f x))"

definition answered_pure :: "('b \<Rightarrow> answer) \<Rightarrow> ('s, 'b) state \<Rightarrow> ('s, answer cres) state" where
  "answered_pure f m = do { x \<leftarrow> m; ret_ok (f x) }"

text \<open>The registration of the callbacks in main.\<close>

fun registered :: "os_env \<Rightarrow> mobile_consts \<Rightarrow> callback \<Rightarrow> (('l, 'a) mobile_user_scheme, answer cres) state" where
  "registered E K (Debug_log line) = answered_pure (\<lambda>_. A_void) (impl_debug_log line)"
| "registered E K (Config_read offset n) = answered_pure (\<lambda>(ok, bs). A_read ok bs) (impl_config_read offset n)"
| "registered E K (Config_write src offset) = answered_pure A_bool (impl_config_write src offset)"
| "registered E K (Time_latch timer) = answered (\<lambda>_. A_void) (impl_time_latch timer)"
| "registered E K (Time_check_ms timer ms) = answered A_bool (impl_time_check_ms timer ms)"
| "registered E K (Sock_open conn type addrtype port) = answered A_bool (impl_sock_open E conn type addrtype port)"
| "registered E K (Sock_close conn) = answered (\<lambda>_. A_void) (impl_sock_close E conn)"
| "registered E K (Sock_connect conn addr) = answered A_int (impl_sock_connect E conn addr)"
| "registered E K (Sock_listen conn) = answered A_bool (impl_sock_listen E conn)"
| "registered E K (Sock_accept conn) = answered A_bool (impl_sock_accept E conn)"
| "registered E K (Sock_send conn data addr) = answered A_int (impl_sock_send E conn data addr)"
| "registered E K (Sock_recv conn buf addr) =
     answered (\<lambda>(n, bs, a). A_recv n bs a) (impl_sock_recv E conn buf addr)"
| "registered E K (Update_number type number) = answered (\<lambda>_. A_void) (impl_update_number K type number)"

section \<open>Library functions\<close>

datatype ('l, 'b) prog = Finish 'l 'b | Invoke callback "answer \<Rightarrow> ('l, 'b) prog"

primrec run_prog ::
    "(callback \<Rightarrow> ('s, answer cres) state) \<Rightarrow> ('l \<Rightarrow> 's \<Rightarrow> 's) \<Rightarrow> ('l, 'b) prog \<Rightarrow> ('s, 'b cres) state" where
  "run_prog cb put (Finish l x) = do { modify (put l); ret_ok x }"
| "run_prog cb put (Invoke c f) = andthen (cb c) (\<lambda>a. run_prog cb put (f a))"

text \<open>
  The functions of libmobile that main calls; \<open>'l\<close> is the memory of an adapter.
  \<open>mobile_new\<close> allocates one, and returns a null pointer (\<open>None\<close>) when it cannot.
\<close>

datatype mobile_dns = MOBILE_DNS1 | MOBILE_DNS2

record 'l mobile_lib =
  mobile_new :: "'l option"
  mobile_start :: "'l \<Rightarrow> ('l, unit) prog"
  mobile_stop :: "'l \<Rightarrow> ('l, unit) prog"
  mobile_actions_get :: "'l \<Rightarrow> ('l, u32) prog"
  mobile_actions_process :: "u32 \<Rightarrow> 'l \<Rightarrow> ('l, unit) prog"
  mobile_transfer :: "byte \<Rightarrow> 'l \<Rightarrow> ('l, byte) prog"
  mobile_config_load :: "'l \<Rightarrow> ('l, unit) prog"
  mobile_config_set_device :: "u32 \<Rightarrow> bool \<Rightarrow> 'l \<Rightarrow> ('l, unit) prog"
  mobile_config_set_dns :: "mobile_addr \<Rightarrow> mobile_dns \<Rightarrow> 'l \<Rightarrow> ('l, unit) prog"
  mobile_config_set_p2p_port :: "u32 \<Rightarrow> 'l \<Rightarrow> ('l, unit) prog"
  mobile_config_set_relay :: "mobile_addr \<Rightarrow> 'l \<Rightarrow> ('l, unit) prog"
  mobile_config_set_relay_token :: "byte list option \<Rightarrow> 'l \<Rightarrow> ('l, unit) prog"
  mobile_config_save :: "'l \<Rightarrow> ('l, unit) prog"

definition put_adapter :: "'l \<Rightarrow> ('l, 'a) mobile_user_scheme \<Rightarrow> ('l, 'a) mobile_user_scheme" where
  "put_adapter l s = s\<lparr>adapter := l\<rparr>"

definition call_lib ::
    "os_env \<Rightarrow> mobile_consts \<Rightarrow> ('l \<Rightarrow> ('l, 'b) prog) \<Rightarrow> (('l, 'a) mobile_user_scheme, 'b cres) state" where
  "call_lib E K f = do { l \<leftarrow> gets adapter; run_prog (registered E K) put_adapter (f l) }"

definition bgb_loop_transfer ::
    "os_env \<Rightarrow> mobile_consts \<Rightarrow> 'l mobile_lib \<Rightarrow> byte \<Rightarrow> (('l, 'a) mobile_user_scheme, byte cres) state" where
  "bgb_loop_transfer E K L c = call_lib E K (mobile_transfer L c)"

text \<open>\<open>mobile->action = filter_actions(mobile_actions_get(mobile->adapter));\<close>\<close>

definition fetch_action ::
    "os_env \<Rightarrow> mobile_consts \<Rightarrow> 'l mobile_lib \<Rightarrow> (('l, 'a) mobile_user_scheme, unit cres) state" where
  "fetch_action E K L = andthen (call_lib E K (mobile_actions_get L)) (\<lambda>acts. do {
     modify (\<lambda>s. s\<lparr>action := filter_actions K acts\<rparr>);
     ret_ok ()
   })"

definition handle_reset ::
    "os_env \<Rightarrow> mobile_consts \<Rightarrow> 'l mobile_lib \<Rightarrow> (('l, 'a) mobile_user_scheme, unit cres) state" where
  "handle_reset E K L = do {
     r \<leftarrow> gets reset;
     if r then andthen (call_lib E K (mobile_stop L)) (\<lambda>_. andthen (call_lib E K (mobile_start L)) (\<lambda>_. do {
         modify (\<lambda>s. s\<lparr>reset := False\<rparr>);
         ret_ok ()
       }))
     else ret_ok ()
   }"

definition mobile_handle_loop ::
    "os_env \<Rightarrow> mobile_consts \<Rightarrow> 'l mobile_lib \<Rightarrow> (('l, 'a) mobile_user_scheme, bool cres) state" where
  "mobile_handle_loop E K L =
     andthen (handle_reset E K L) (\<lambda>_.
     andthen (do {
       a \<leftarrow> gets action;
       if a = MOBILE_ACTION_NONE K then fetch_action E K L else ret_ok ()
     }) (\<lambda>_.
     andthen (do {
       a \<leftarrow> gets action;
       if a \<noteq> MOBILE_ACTION_NONE K
       then andthen (call_lib E K (mobile_actions_process L a)) (\<lambda>_. fetch_action E K L)
       else ret_ok ()
     }) (\<lambda>_. ret_ok True)))"

section \<open>What no library can do\<close>

text \<open>
  Whatever a library function does, it reaches the system through the callbacks, and these
  never send or receive on the link, which only \<open>bgblink.c\<close> does (with \<open>send\<close> and \<open>recv\<close>; the
  connections use \<open>sendto\<close> and \<open>recvfrom\<close>). So a property of the history that every other
  call keeps is kept by every library function, disciplined or not.
\<close>

fun link_io :: "syscall \<Rightarrow> bool" where
  "link_io (Sys_send _ _) = True"
| "link_io (Sys_recv _ _) = True"
| "link_io _ = False"

lemma keeps_answered:
  "keeps P m \<Longrightarrow> keeps P (answered f m)" "keeps P m' \<Longrightarrow> keeps P (answered_pure g m')"
  unfolding answered_def answered_pure_def by (auto intro: keeps_intros)

locale history =
  fixes P :: "trace \<Rightarrow> bool"
  assumes extend: "\<not> link_io c \<Longrightarrow> P tr \<Longrightarrow> P ((c, r) # tr)"
begin

lemma sys_keeps [keeps_intros]: "\<not> link_io c \<Longrightarrow> keeps (\<lambda>s. P (trace s)) (sys E c)"
  by (rule keepsI) (auto intro: extend)

lemma report_keeps [keeps_intros]:
  "keeps (\<lambda>s. P (trace s)) (eprint t)" "keeps (\<lambda>s. P (trace s)) (socket_perror E f)" "keeps (\<lambda>s. P (trace s)) (perror E g)"
  "keeps (\<lambda>s. P (trace s)) (socket_seterror e)" "keeps (\<lambda>s. P (trace s)) socket_geterror"
  by (rule keepsI, auto)+

lemma socket_keeps [keeps_intros]:
  "keeps (\<lambda>s. P (trace s)) (socket_hasdata E fd)" "keeps (\<lambda>s. P (trace s)) (socket_wait E ws d)"
  "keeps (\<lambda>s. P (trace s)) (socket_setblocking E fd b)" "keeps (\<lambda>s. P (trace s)) (socket_close E fd)"
  "keeps (\<lambda>s. P (trace s)) (fail_close E g fd)"
  unfolding socket_hasdata_def socket_wait_def socket_setblocking_def socket_close_def fail_close_def
  by (intro keeps_intros; simp)+

lemma table_keeps:
  "keeps (\<lambda>s. P (trace s)) (socket_impl_open E conn type addrtype port)" "keeps (\<lambda>s. P (trace s)) (socket_impl_close E conn)"
  "keeps (\<lambda>s. P (trace s)) (socket_impl_connect E conn addr)" "keeps (\<lambda>s. P (trace s)) (socket_impl_listen E conn)"
  "keeps (\<lambda>s. P (trace s)) (socket_impl_accept E conn)" "keeps (\<lambda>s. P (trace s)) (socket_impl_send E conn data addr)"
  "keeps (\<lambda>s. P (trace s)) (socket_impl_recv E conn buf addr)"
  unfolding socket_impl_open_def socket_impl_close_def socket_impl_connect_def socket_impl_listen_def
    socket_impl_accept_def socket_impl_send_def socket_impl_recv_def with_sock_def
  by (intro keeps_intros; simp split: option.split)+

lemma registered_keeps: "keeps (\<lambda>s. P (trace s)) (registered E K c)"
  by (cases c) (auto simp: impl_debug_log_def impl_config_read_def impl_config_write_def impl_time_latch_def
      impl_time_check_ms_def impl_sock_open_def impl_sock_close_def impl_sock_connect_def impl_sock_listen_def
      impl_sock_accept_def impl_sock_send_def impl_sock_recv_def impl_update_number_def update_title_def Let_def
      intro!: keeps_answered keeps_intros table_keeps split: mobile_number.split)

lemma call_lib_keeps [keeps_intros]: "keeps (\<lambda>s. P (trace s)) (call_lib E K f)"
proof -
  have run: "keeps (\<lambda>s. P (trace s)) (run_prog (registered E K) put_adapter p)" for p
  proof (induction p)
    case (Finish l x)
    show ?case unfolding run_prog.simps put_adapter_def by (intro keeps_intros) simp
  next
    case (Invoke c f)
    then show ?case unfolding run_prog.simps by (intro keeps_andthen registered_keeps) blast
  qed
  show ?thesis unfolding call_lib_def by (intro keeps_intros run)
qed

lemma handle_loop_keeps [keeps_intros]: "keeps (\<lambda>s. P (trace s)) (mobile_handle_loop E K L)"
  unfolding mobile_handle_loop_def handle_reset_def fetch_action_def
  by (intro keeps_intros) simp_all

end

text \<open>No byte of the link moves in a stretch of history.\<close>

definition no_bytes :: "int \<Rightarrow> trace \<Rightarrow> trace \<Rightarrow> bool" where
  "no_bytes fd tr0 tr \<longleftrightarrow> (\<exists>evs. tr = evs @ tr0 \<and> bytes_in fd evs = [] \<and> bytes_out fd evs = [])"

interpretation link_rests: history "no_bytes fd tr0" for fd tr0
proof unfold_locales
  fix c tr r
  assume c: "\<not> link_io c" and "no_bytes fd tr0 tr"
  then obtain evs where "tr = evs @ tr0" "bytes_in fd evs = []" "bytes_out fd evs = []"
    by (auto simp: no_bytes_def)
  with c show "no_bytes fd tr0 ((c, r) # tr)"
    unfolding no_bytes_def by (intro exI [of _ "(c, r) # evs"]) (cases c; simp)
qed

lemma off_link_keeps:
  assumes "\<And>tr0. keeps (\<lambda>s. no_bytes fd tr0 (trace s)) m"
  shows "off_link fd m"
  unfolding off_link_def
proof
  fix s
  from keeps_execD [OF assms, of "trace s" s] show "\<exists>evs. trace (exec m s) = evs @ trace s \<and> bytes_in fd evs = [] \<and> bytes_out fd evs = []"
    by (simp add: no_bytes_def)
qed

lemma callbacks_off_link:
  "off_link fd (bgb_loop_transfer E K L c)" "off_link fd (bgb_loop_timestamp t)" "off_link fd (bgb_loop_timestamp_init t)"
  by (rule off_link_keeps,
      auto simp: bgb_loop_transfer_def bgb_loop_timestamp_def bgb_loop_timestamp_init_def Let_def intro!: keeps_intros)+

text \<open>C3.
  The link, with the callbacks that \<open>main\<close> installs, is the serial port of its
  specification. Over any number of successful rounds, whatever the emulator sends, in
  whatever mixture with other packets, whatever the library does with a byte, and with
  either of the two clock callbacks: the exchanges of the port are the bytes that came in
  and the bytes that went out over the link, in order; so the bytes sent back are those
  the adapter prepared one exchange earlier, starting with the initial byte, and
  \<open>mobile_transfer\<close> has run on exactly the bytes received, in order and once on each.
\<close>

theorem bgb_link_is_serial_port:
  assumes "callback_transfer st = Some (bgb_loop_transfer E K L)"
    and "callback_timestamp st = Some clk" and "clk = bgb_loop_timestamp \<or> clk = bgb_loop_timestamp_init"
    and "run_state (bgb_rounds E n st) s = (Ret (True, st'), s')"
  shows "\<exists>evs xs. trace s' = evs @ trace s \<and>
    serial_port (bgb_loop_transfer E K L) clk (bgb_byte st) s xs (bgb_byte st') s' \<and>
    map fst xs = rev (bytes_in (bgb_socket st) evs) \<and> map snd xs = rev (bytes_out (bgb_socket st) evs)"
proof -
  have "off_link (bgb_socket st) (clk t)" for t
    using assms(3) callbacks_off_link(2,3) by auto
  from bgb_rounds_carry [OF assms(1,2) callbacks_off_link(1) this assms(4)] show ?thesis
    by (simp add: carries_def)
qed

section \<open>The protocol of the callbacks\<close>

text \<open>
  What the host requires of a callback; \<open>C\<close> is the set of connections the library has
  opened and not closed. The numbers of connections and timers are the sizes of the arrays
  that libmobile's header declares, and the host asserts the state of a connection. The bound
  on the milliseconds is the host's own: beyond it the conversion in
  \<open>impl_time_check_ms\<close> is undefined, and nothing in the program keeps the library from asking.
\<close>

fun allowed :: "mobile_consts \<Rightarrow> nat set \<Rightarrow> callback \<Rightarrow> bool" where
  "allowed K C (Time_latch timer) = (timer < MOBILE_MAX_TIMERS K)"
| "allowed K C (Time_check_ms timer ms) = (timer < MOBILE_MAX_TIMERS K \<and> unat ms < 2048000)"
| "allowed K C (Sock_open conn type addrtype port) =
     (conn < MOBILE_MAX_CONNECTIONS K \<and> conn \<notin> C \<and> type \<noteq> SOCKTYPE_OTHER \<and> addrtype \<noteq> ADDRTYPE_OTHER)"
| "allowed K C (Sock_close conn) = (conn \<in> C)"
| "allowed K C (Sock_connect conn addr) = (conn \<in> C \<and> (case addr of Some a \<Rightarrow> known_host a | None \<Rightarrow> False))"
| "allowed K C (Sock_listen conn) = (conn \<in> C)"
| "allowed K C (Sock_accept conn) = (conn \<in> C)"
| "allowed K C (Sock_send conn data addr) = (conn \<in> C)"
| "allowed K C (Sock_recv conn buf addr) = (conn \<in> C)"
| "allowed K C (Update_number type number) =
     (type \<noteq> NUMBER_OTHER \<and> (case number of Some t \<Rightarrow> ascii (cstr t) | None \<Rightarrow> True))"
| "allowed K C _ = True"

fun fits :: "callback \<Rightarrow> answer \<Rightarrow> bool" where
  "fits (Debug_log _) a = (a = A_void)"
| "fits (Config_read _ n) a = (\<exists>ok bs. a = A_read ok bs \<and> length bs \<le> n \<and> (ok \<longleftrightarrow> length bs = n))"
| "fits (Config_write _ _) a = (\<exists>b. a = A_bool b)"
| "fits (Time_latch _) a = (a = A_void)"
| "fits (Time_check_ms _ _) a = (\<exists>b. a = A_bool b)"
| "fits (Sock_open _ _ _ _) a = (\<exists>b. a = A_bool b)"
| "fits (Sock_close _) a = (a = A_void)"
| "fits (Sock_connect _ _) a = (\<exists>n \<in> {- 1, 0, 1}. a = A_int n)"
| "fits (Sock_listen _) a = (\<exists>b. a = A_bool b)"
| "fits (Sock_accept _) a = (\<exists>b. a = A_bool b)"
| "fits (Sock_send _ _ _) a = (\<exists>n. a = A_int n)"
| "fits (Sock_recv _ _ _) a = (\<exists>n bs ad. a = A_recv n bs ad)"
| "fits (Update_number _ _) a = (a = A_void)"

fun after :: "nat set \<Rightarrow> callback \<Rightarrow> answer \<Rightarrow> nat set" where
  "after C (Sock_open conn _ _ _) a = (if a = A_bool True then insert conn C else C)"
| "after C (Sock_close conn) a = C - {conn}"
| "after C _ a = C"

primrec obeys :: "mobile_consts \<Rightarrow> (nat set \<Rightarrow> 'l \<Rightarrow> bool) \<Rightarrow> ('l, 'b) prog \<Rightarrow> nat set \<Rightarrow> bool" where
  "obeys K I (Finish l x) C = I C l"
| "obeys K I (Invoke c f) C = (allowed K C c \<and> (\<forall>a. fits c a \<longrightarrow> obeys K I (f a) (after C c a)))"

text \<open>
  A library with an invariant \<open>I\<close>, relating the open connections to its memory, whose
  functions obey the protocol, and which could allocate the adapter.
\<close>

definition disciplined :: "mobile_consts \<Rightarrow> 'l mobile_lib \<Rightarrow> (nat set \<Rightarrow> 'l \<Rightarrow> bool) \<Rightarrow> bool" where
  "disciplined K L I \<longleftrightarrow> (\<exists>l. mobile_new L = Some l \<and> I {} l) \<and>
     (\<forall>C l. I C l \<longrightarrow>
        obeys K I (mobile_start L l) C \<and> obeys K I (mobile_stop L l) C \<and>
        obeys K I (mobile_actions_get L l) C \<and> (\<forall>a. obeys K I (mobile_actions_process L a l) C) \<and>
        (\<forall>b. obeys K I (mobile_transfer L b l) C) \<and>
        obeys K I (mobile_config_load L l) C \<and> (\<forall>d u. obeys K I (mobile_config_set_device L d u l) C) \<and>
        (\<forall>a i. obeys K I (mobile_config_set_dns L a i l) C) \<and> (\<forall>p. obeys K I (mobile_config_set_p2p_port L p l) C) \<and>
        (\<forall>a. obeys K I (mobile_config_set_relay L a l) C) \<and>
        (\<forall>t. obeys K I (mobile_config_set_relay_token L t l) C) \<and> obeys K I (mobile_config_save L l) C)"

text \<open>
  A host that serves the protocol: in a state with the connections \<open>C\<close> open, an allowed
  callback returns a fitting answer and leaves the connections that the protocol says.
\<close>

locale callback_host =
  fixes hst :: "nat set \<Rightarrow> 's \<Rightarrow> bool"
    and cb :: "callback \<Rightarrow> ('s, answer cres) state"
    and K :: mobile_consts
    and put :: "'l \<Rightarrow> 's \<Rightarrow> 's"
    and get :: "'s \<Rightarrow> 'l"
  assumes callback_law: "allowed K C c \<Longrightarrow>
      triple (hst C) (cb c) (\<lambda>a s. \<exists>x. a = Ret x \<and> fits c x \<and> hst (after C c x) s)"
    and put_law: "hst C s \<Longrightarrow> hst C (put l s) \<and> get (put l s) = l"
begin

lemma run_obeys:
  "obeys K I p C \<Longrightarrow>
   triple (hst C) (run_prog cb put p) (\<lambda>a s. \<exists>x C'. a = Ret x \<and> hst C' s \<and> I C' (get s))"
proof (induction p arbitrary: C)
  case (Finish l x)
  then show ?case using put_law by (auto simp: triple_def)
next
  case (Invoke c f)
  show ?case unfolding run_prog.simps
  proof (rule triple_andthen [OF callback_law])
    show "allowed K C c" using Invoke.prems by simp
    fix x
    show "triple (\<lambda>s. \<exists>y. Ret x = Ret y \<and> fits c y \<and> hst (after C c y) s) (run_prog cb put (f x))
        (\<lambda>a s. \<exists>x C'. a = Ret x \<and> hst C' s \<and> I C' (get s))"
    proof (cases "fits c x")
      case True
      with Invoke.prems have "obeys K I (f x) (after C c x)" by simp
      from Invoke.IH [OF rangeI this] show ?thesis by (rule triple_conseq) auto
    next
      case False
      then show ?thesis by (auto simp: triple_def)
    qed
  qed auto
qed

text \<open>The library's invariant and the host's, with some set of open connections.\<close>

lemma call_keeps:
  assumes "\<And>C l. I C l \<Longrightarrow> obeys K I (f l) C"
  shows "triple (\<lambda>s. \<exists>C. hst C s \<and> I C (get s)) (do { l \<leftarrow> gets get; run_prog cb put (f l) })
    (\<lambda>a s. returns a \<and> (\<exists>C. hst C s \<and> I C (get s)))"
proof (rule tripleI)
  fix s a s'
  assume "\<exists>C. hst C s \<and> I C (get s)" and run: "run_state (do { l \<leftarrow> gets get; run_prog cb put (f l) }) s = (a, s')"
  then obtain C where C: "hst C s" "I C (get s)" by blast
  from run have "run_state (run_prog cb put (f (get s))) s = (a, s')" by simp
  from tripleD [OF run_obeys [OF assms [OF C(2)]] C(1) this]
  show "returns a \<and> (\<exists>C. hst C s' \<and> I C (get s'))" by auto
qed

end

section \<open>The host serves the protocol\<close>

text \<open>
  The host's invariant: the connection table is in order with the connections \<open>C\<close> open
  (\<open>B\<close> are the descriptors outside the table), and so are the arrays of
  \<open>struct mobile_user\<close>. With \<open>exact\<close>, no descriptor has leaked. \<open>v\<close> are the fields that
  no callback of libmobile may touch: the reset flag, the pending action and the clock.
\<close>

type_synonym flags = "bool \<times> u32 \<times> u32 \<times> bool"

definition flags :: "('l, 'a) mobile_user_scheme \<Rightarrow> flags" where
  "flags s = (reset s, action s, bgb_clock s, bgb_clock_init s)"

definition host ::
    "os_env \<Rightarrow> bool \<Rightarrow> mobile_consts \<Rightarrow> int set \<Rightarrow> flags \<Rightarrow> nat set \<Rightarrow> ('l, 'a) mobile_user_scheme \<Rightarrow> bool" where
  "host E exact K B v C s \<longleftrightarrow> title_fits K \<and> user_ok K s \<and> flags s = v \<and>
     table E exact (MOBILE_MAX_CONNECTIONS K) B (sock_os.more s) C s"

lemma user_ok_more: "sock_os.more s' = sock_os.more s \<Longrightarrow> user_ok K s' = user_ok K s"
  by (cases s; cases s') (simp add: user_ok_def)

lemma flags_more: "sock_os.more s' = sock_os.more s \<Longrightarrow> flags s' = flags s"
  by (cases s; cases s') (simp add: flags_def)

lemma table_more: "table E exact n B r C s \<Longrightarrow> sock_os.more s = r"
  by (auto simp: table_def fds_def)

lemma table_cong:
  "table E exact n B (sock_os.more s) C s \<Longrightarrow> trace s' = trace s \<Longrightarrow> sockets s' = sockets s \<Longrightarrow>
   table E exact n B (sock_os.more s') C s'"
  by (auto simp: table_def fds_def)

lemma host_cong:
  "host E exact K B v C s \<Longrightarrow> trace s' = trace s \<Longrightarrow> sockets s' = sockets s \<Longrightarrow> user_ok K s' \<Longrightarrow> flags s' = v \<Longrightarrow> host E exact K B v C s'"
  unfolding host_def using table_cong by blast

text \<open>What the table's operations guarantee, they guarantee to the host.\<close>

lemma host_table:
  assumes "\<And>r. triple (table E exact (MOBILE_MAX_CONNECTIONS K) B r C) m
      (\<lambda>a s. \<exists>x. a = Ret x \<and> P x \<and> table E exact (MOBILE_MAX_CONNECTIONS K) B r (D x) s)"
    and "\<And>x. P x \<Longrightarrow> fits c (f x) \<and> after C c (f x) = D x"
  shows "triple (host E exact K B v C) (answered f m)
    (\<lambda>a s. \<exists>x. a = Ret x \<and> fits c x \<and> host E exact K B v (after C c x) s)"
proof (rule tripleI)
  fix s a s'
  assume h: "host E exact K B v C s" and run: "run_state (answered f m) s = (a, s')"
  obtain a0 s0 where m: "run_state m s = (a0, s0)" by fastforce
  from h have "table E exact (MOBILE_MAX_CONNECTIONS K) B (sock_os.more s) C s" by (simp add: host_def)
  from tripleD [OF assms(1) this m] obtain x where x: "a0 = Ret x" "P x"
    "table E exact (MOBILE_MAX_CONNECTIONS K) B (sock_os.more s) (D x) s0" by blast
  with run m have "a = Ret (f x)" "s' = s0" by (auto simp: answered_def run_andthen)
  with x assms(2) [OF x(2)] h table_more [OF x(3)] user_ok_more [of s0 s] flags_more [of s0 s]
  show "\<exists>x. a = Ret x \<and> fits c x \<and> host E exact K B v (after C c x) s'" by (auto simp: host_def)
qed

lemma host_table_kept:
  assumes "\<And>r. triple (table E exact (MOBILE_MAX_CONNECTIONS K) B r C) m
      (\<lambda>a s. returns a \<and> table E exact (MOBILE_MAX_CONNECTIONS K) B r C s)"
    and "\<And>x. fits c (f x) \<and> after C c (f x) = C"
  shows "triple (host E exact K B v C) (answered f m)
    (\<lambda>a s. \<exists>x. a = Ret x \<and> fits c x \<and> host E exact K B v (after C c x) s)"
  by (rule host_table [where P = "\<lambda>_. True" and D = "\<lambda>_. C"], rule triple_conseq [OF assms(1)])
    (use assms(2) in \<open>auto simp: returns_iff\<close>)

lemma known_host_convert: "known_host a \<Longrightarrow> snd (convert_sockaddr (Some a)) \<noteq> None"
  by (cases "addr_type a") (auto simp: known_host_def convert_sockaddr_def split: if_splits)

fun on_socket :: "callback \<Rightarrow> bool" where
  "on_socket (Debug_log _) = False"
| "on_socket (Config_read _ _) = False"
| "on_socket (Config_write _ _) = False"
| "on_socket (Time_latch _) = False"
| "on_socket (Time_check_ms _ _) = False"
| "on_socket (Update_number _ _) = False"
| "on_socket _ = True"

lemma host_sockets:
  assumes "allowed K C c" and "on_socket c"
  shows "triple (host E exact K B v C) (registered E K c)
    (\<lambda>a s. \<exists>x. a = Ret x \<and> fits c x \<and> host E exact K B v (after C c x) s)"
proof (cases c)
  case c: (Sock_open conn type addrtype port)
  show ?thesis unfolding c registered.simps impl_sock_open_def
    by (rule host_table [where P = "\<lambda>_. True" and D = "\<lambda>b. if b then insert conn C else C"],
        rule triple_conseq [OF sockets_table.open_law]) (use assms(1) c in auto)
next
  case c: (Sock_close conn)
  show ?thesis unfolding c registered.simps impl_sock_close_def
    by (rule host_table [where P = "\<lambda>_. True" and D = "\<lambda>_. C - {conn}"],
        rule triple_conseq [OF sockets_table.close_law]) (use assms(1) c in auto)
next
  case c: (Sock_connect conn addr)
  show ?thesis unfolding c registered.simps impl_sock_connect_def
    by (rule host_table [where P = "\<lambda>n. n \<in> {- 1, 0, 1}" and D = "\<lambda>_. C"],
        rule triple_conseq [OF sockets_table.connect_law])
      (use assms(1) c known_host_convert in \<open>auto split: option.splits\<close>)
next
  case c: (Sock_listen conn)
  show ?thesis unfolding c registered.simps impl_sock_listen_def
    by (rule host_table_kept [OF sockets_table.listen_law]) (use assms(1) c in auto)
next
  case c: (Sock_accept conn)
  show ?thesis unfolding c registered.simps impl_sock_accept_def
    by (rule host_table_kept [OF sockets_table.accept_law]) (use assms(1) c in auto)
next
  case c: (Sock_send conn data addr)
  show ?thesis unfolding c registered.simps impl_sock_send_def
    by (rule host_table_kept [OF sockets_table.send_law]) (use assms(1) c in auto)
next
  case c: (Sock_recv conn buf addr)
  show ?thesis unfolding c registered.simps impl_sock_recv_def
    by (rule host_table_kept [OF sockets_table.recv_law]) (use assms(1) c in auto)
qed (use assms(2) in simp_all)

text \<open>The other callbacks touch the host's own memory only.\<close>

lemma host_local:
  assumes "\<And>s. host E exact K B v C s \<Longrightarrow> \<exists>x s'. run_state m s = (Ret x, s') \<and> fits c x \<and>
      trace s' = trace s \<and> sockets s' = sockets s \<and> user_ok K s' \<and> flags s' = flags s" and "\<And>x. after C c x = C"
  shows "triple (host E exact K B v C) m (\<lambda>a s. \<exists>x. a = Ret x \<and> fits c x \<and> host E exact K B v (after C c x) s)"
proof (rule tripleI)
  fix s a s'
  assume h: "host E exact K B v C s" and "run_state m s = (a, s')"
  with assms(1) [OF h] obtain x where "a = Ret x" "fits c x" "trace s' = trace s" "sockets s' = sockets s" "user_ok K s'" "flags s' = v"
    using h by (auto simp: host_def)
  with host_cong [OF h] assms(2) show "\<exists>x. a = Ret x \<and> fits c x \<and> host E exact K B v (after C c x) s'" by auto
qed

lemma run_number_frame:
  "run_state (impl_update_number K type num) s = (a, s') \<Longrightarrow>
   trace s' = trace s \<and> sockets s' = sockets s \<and> flags s' = flags s"
  by (cases type) (auto simp: flags_def impl_update_number_def update_title_def run_andthen split: cres.splits if_splits)

lemma host_others:
  assumes "allowed K C c" and "\<not> on_socket c"
  shows "triple (host E exact K B v C) (registered E K c)
    (\<lambda>a s. \<exists>x. a = Ret x \<and> fits c x \<and> host E exact K B v (after C c x) s)"
proof (rule host_local)
  show "after C c x = C" for x using assms(2) by (cases c) auto
  fix s :: "('a, 'b) mobile_user_scheme"
  assume h: "host E exact K B v C s"
  then have u: "user_ok K s" and t: "title_fits K" by (simp_all add: host_def)
  show "\<exists>x s'. run_state (registered E K c) s = (Ret x, s') \<and> fits c x \<and>
      trace s' = trace s \<and> sockets s' = sockets s \<and> user_ok K s' \<and> flags s' = flags s"
  proof (cases c)
    case (Update_number type num)
    obtain a s' where run: "run_state (impl_update_number K type num) s = (a, s')" by fastforce
    have "a = Ret () \<and> user_ok K s'"
      using run_update_number [OF u t _ _ run] assms(1) Update_number by (auto split: option.splits)
    with run run_number_frame [OF run] Update_number show ?thesis by (simp add: answered_def run_andthen)
  qed (use u assms in \<open>auto simp: answered_def answered_pure_def run_andthen user_ok_def flags_def impl_debug_log_def
      impl_config_read_def impl_config_write_def fread_def fwrite_def Let_def impl_time_latch_def run_time_check\<close>)
qed

lemma host_callback_law:
  assumes "allowed K C c"
  shows "triple (host E exact K B v C) (registered E K c)
    (\<lambda>a s. \<exists>x. a = Ret x \<and> fits c x \<and> host E exact K B v (after C c x) s)"
  using host_sockets [OF assms] host_others [OF assms] by blast

interpretation bgb_host: callback_host "host E exact K B v" "registered E K" K put_adapter adapter
  for E exact K B v
proof unfold_locales
  show "host E exact K B v C s \<Longrightarrow> host E exact K B v C (put_adapter l s) \<and> adapter (put_adapter l s) = l" for C s l
    by (auto simp: put_adapter_def host_def user_ok_def flags_def intro: host_cong table_cong)
qed (rule host_callback_law)

section \<open>Library calls keep the invariant\<close>

text \<open>
  The invariant of the whole program between calls: the host's invariant and the
  library's agree on the open connections.
\<close>

definition serving ::
    "os_env \<Rightarrow> bool \<Rightarrow> mobile_consts \<Rightarrow> int set \<Rightarrow> (nat set \<Rightarrow> 'l \<Rightarrow> bool) \<Rightarrow> flags \<Rightarrow> ('l, 'a) mobile_user_scheme \<Rightarrow> bool" where
  "serving E exact K B I v s \<longleftrightarrow> (\<exists>C. host E exact K B v C s \<and> I C (adapter s))"

lemma call_lib_serving:
  assumes "\<And>C l. I C l \<Longrightarrow> obeys K I (f l) C"
  shows "triple (serving E exact K B I v) (call_lib E K f) (\<lambda>a s. returns a \<and> serving E exact K B I v s)"
  using bgb_host.call_keeps [OF assms] unfolding serving_def call_lib_def .

lemma serving_cong:
  "serving E exact K B I v s \<Longrightarrow> trace s' = trace s \<Longrightarrow> sockets s' = sockets s \<Longrightarrow> user_ok K s' \<Longrightarrow> adapter s' = adapter s \<Longrightarrow>
   flags s' = v' \<Longrightarrow> serving E exact K B I v' s'"
  unfolding serving_def host_def using table_cong by metis

lemma serving_user_ok: "serving E exact K B I v s \<Longrightarrow> user_ok K s \<and> flags s = v"
  by (auto simp: serving_def host_def)

definition library_step ::
    "os_env \<Rightarrow> bool \<Rightarrow> mobile_consts \<Rightarrow> int set \<Rightarrow> (nat set \<Rightarrow> 'l \<Rightarrow> bool) \<Rightarrow> flags \<Rightarrow>
     (('l, 'a) mobile_user_scheme, 'b cres) state \<Rightarrow> bool" where
  "library_step E exact K B I v m \<longleftrightarrow>
     triple (serving E exact K B I v) m (\<lambda>a s. returns a \<and> serving E exact K B I v s)"

lemma entry_points:
  assumes "disciplined K L I"
  shows "library_step E exact K B I v (call_lib E K (mobile_start L))"
    and "library_step E exact K B I v (call_lib E K (mobile_stop L))"
    and "library_step E exact K B I v (call_lib E K (mobile_actions_get L))"
    and "library_step E exact K B I v (call_lib E K (mobile_actions_process L x))"
    and "library_step E exact K B I v (call_lib E K (mobile_transfer L b))"
    and "library_step E exact K B I v (call_lib E K (mobile_config_load L))"
    and "library_step E exact K B I v (call_lib E K (mobile_config_set_device L d u))"
    and "library_step E exact K B I v (call_lib E K (mobile_config_set_dns L ad n))"
    and "library_step E exact K B I v (call_lib E K (mobile_config_set_p2p_port L p))"
    and "library_step E exact K B I v (call_lib E K (mobile_config_set_relay L ad))"
    and "library_step E exact K B I v (call_lib E K (mobile_config_set_relay_token L tk))"
    and "library_step E exact K B I v (call_lib E K (mobile_config_save L))"
  unfolding library_step_def by (rule call_lib_serving, use assms in \<open>simp add: disciplined_def\<close>)+

lemmas entry_triples = entry_points [unfolded library_step_def]

lemma triple_returns_andthen:
  assumes "triple P m (\<lambda>a s. returns a \<and> Q s)" and "\<And>x. triple Q (f x) (\<lambda>a s. returns a \<and> R s)"
  shows "triple P (andthen m f) (\<lambda>a s. returns a \<and> R s)"
  by (rule triple_andthen [OF assms(1)], rule triple_conseq [OF assms(2)]) auto

lemma triple_gets_ex:
  "(\<And>x. triple (\<lambda>s. P s \<and> g s = x) (f x) Q) \<Longrightarrow> triple P (State_Monad.bind (gets g) f) Q"
  by (simp add: triple_def)

lemma triple_modify_ret:
  "(\<And>s. P s \<Longrightarrow> R (g s)) \<Longrightarrow> triple P (State_Monad.bind (modify g) (\<lambda>_. ret_ok x)) (\<lambda>a s. returns a \<and> R s)"
  by (simp add: triple_def)

lemma triple_ex: "(\<And>x. triple (P x) m Q) \<Longrightarrow> triple (\<lambda>s. \<exists>x. P x s) m Q"
  by (rule tripleI) (use tripleD in metis)

lemma triple_ret: "triple P (ret_ok x) (\<lambda>a s. returns a \<and> P s)"
  by (simp add: triple_def)

lemma serving_set:
  assumes "serving E exact K B I (r, a, t, i) s"
  shows "serving E exact K B I (r', a, t, i) (s\<lparr>reset := r'\<rparr>)"
    and "serving E exact K B I (r, a', t, i) (s\<lparr>action := a'\<rparr>)"
  using serving_user_ok [OF assms] by (auto intro!: serving_cong [OF assms] simp: user_ok_def flags_def)

lemma filter_actions_clear: "filter_actions K a AND MOBILE_ACTION_RESET_SERIAL K = 0"
  by (rule bit_eqI) (auto simp: filter_actions_def bit_simps)

text \<open>The states between the rounds of the host, with the time \<open>t\<close> on the clock.\<close>

definition resting ::
    "os_env \<Rightarrow> bool \<Rightarrow> mobile_consts \<Rightarrow> int set \<Rightarrow> (nat set \<Rightarrow> 'l \<Rightarrow> bool) \<Rightarrow> bool \<Rightarrow> u32 \<Rightarrow> bool \<Rightarrow>
     ('l, 'a) mobile_user_scheme \<Rightarrow> bool" where
  "resting E exact K B I r t i s \<longleftrightarrow>
     (\<exists>a. a AND MOBILE_ACTION_RESET_SERIAL K = 0 \<and> serving E exact K B I (r, a, t, i) s)"

lemma resting_serving:
  "resting E exact K B I r t i s \<Longrightarrow>
   serving E exact K B I (r, action s, t, i) s \<and> action s AND MOBILE_ACTION_RESET_SERIAL K = 0"
proof -
  assume "resting E exact K B I r t i s"
  then obtain a where a: "a AND MOBILE_ACTION_RESET_SERIAL K = 0" "serving E exact K B I (r, a, t, i) s"
    by (auto simp: resting_def)
  then have "action s = a" using serving_user_ok [OF a(2)] by (simp add: flags_def)
  with a show ?thesis by simp
qed

lemma resting_reset: "resting E exact K B I r t i s \<Longrightarrow> reset s = r"
  by (auto simp: resting_def flags_def dest: serving_user_ok)

lemma resting_no_reset: "resting E exact K B I r t i s \<Longrightarrow> \<not> reset s \<Longrightarrow> resting E exact K B I False t i s"
  by (cases r) (auto dest: resting_reset)

lemma call_lib_resting:
  assumes "\<And>v. triple (serving E exact K B I v) m (\<lambda>a s. returns a \<and> serving E exact K B I v s)"
  shows "triple (\<lambda>s. resting E exact K B I r t i s \<and> P s) m (\<lambda>a s. returns a \<and> resting E exact K B I r t i s)"
proof (rule tripleI)
  fix s a s'
  assume "resting E exact K B I r t i s \<and> P s" and run: "run_state m s = (a, s')"
  then obtain x where x: "x AND MOBILE_ACTION_RESET_SERIAL K = 0" "serving E exact K B I (r, x, t, i) s"
    by (auto simp: resting_def)
  with tripleD [OF assms x(2) run] show "returns a \<and> resting E exact K B I r t i s'"
    by (auto simp: resting_def)
qed

lemma fetch_action_resting:
  assumes "disciplined K L I"
  shows "triple (serving E exact K B I (r, a, t, i)) (fetch_action E K L)
    (\<lambda>x s. returns x \<and> resting E exact K B I r t i s)"
  unfolding fetch_action_def resting_def
  by (rule triple_returns_andthen [OF entry_triples(3) [OF assms] triple_modify_ret])
    (blast intro: filter_actions_clear serving_set(2))

lemma handle_reset_resting:
  assumes d: "disciplined K L I"
  shows "triple (resting E exact K B I r t i) (handle_reset E K L)
    (\<lambda>x s. returns x \<and> resting E exact K B I False t i s)"
  unfolding handle_reset_def
proof (intro triple_gets_ex triple_if)
  have "triple (\<lambda>s. serving E exact K B I (r, a, t, i) s \<and> a AND MOBILE_ACTION_RESET_SERIAL K = 0)
      (andthen (call_lib E K (mobile_stop L)) (\<lambda>_. andthen (call_lib E K (mobile_start L)) (\<lambda>_. do {
         modify (\<lambda>s. s\<lparr>reset := False\<rparr>);
         ret_ok ()
       }))) (\<lambda>x s. returns x \<and> resting E exact K B I False t i s)" for a
  proof (cases "a AND MOBILE_ACTION_RESET_SERIAL K = 0")
    case True
    have clear: "triple (serving E exact K B I (r, a, t, i)) (do { modify (\<lambda>s. s\<lparr>reset := False\<rparr>); ret_ok () })
        (\<lambda>x s. returns x \<and> serving E exact K B I (False, a, t, i) s)"
      by (rule triple_modify_ret) (rule serving_set(1))
    show ?thesis
      by (rule triple_conseq [OF triple_returns_andthen [OF entry_triples(2) [OF d]
            triple_returns_andthen [OF entry_triples(1) [OF d] clear]]])
        (use True in \<open>auto simp: resting_def\<close>)
  qed (simp add: triple_def)
  from triple_ex [OF this]
  show "triple (\<lambda>s. resting E exact K B I r t i s \<and> reset s = r')
      (andthen (call_lib E K (mobile_stop L)) (\<lambda>_. andthen (call_lib E K (mobile_start L)) (\<lambda>_. do {
         modify (\<lambda>s. s\<lparr>reset := False\<rparr>);
         ret_ok ()
       }))) (\<lambda>x s. returns x \<and> resting E exact K B I False t i s)" for r'
    by (rule triple_conseq) (auto dest: resting_serving)
qed (auto simp: triple_def intro: resting_no_reset)

text \<open>
  A round of the host: the reset flag is clear afterwards, the pending action is one for
  this emulator, and the clock is as it was.
\<close>

lemma mobile_handle_loop_resting:
  assumes d: "disciplined K L I"
  shows "triple (resting E exact K B I r t i) (mobile_handle_loop E K L)
    (\<lambda>x s. returns x \<and> resting E exact K B I False t i s)"
  unfolding mobile_handle_loop_def
proof (intro triple_returns_andthen [OF handle_reset_resting [OF d]]
    triple_returns_andthen [where Q = "resting E exact K B I False t i"] triple_gets_ex triple_if triple_ret)
  show "triple (\<lambda>s. resting E exact K B I False t i s \<and> action s = a) (fetch_action E K L)
      (\<lambda>x s. returns x \<and> resting E exact K B I False t i s)" for a
    by (rule triple_conseq [OF fetch_action_resting [OF d, where a = a]]) (auto dest: resting_serving)
  show "triple (\<lambda>s. resting E exact K B I False t i s \<and> action s = a) (call_lib E K (mobile_actions_process L a))
      (\<lambda>x s. returns x \<and> resting E exact K B I False t i s)" for a
    by (rule call_lib_resting [OF entry_triples(4) [OF d]])
  show "triple (resting E exact K B I False t i) (fetch_action E K L)
      (\<lambda>x s. returns x \<and> resting E exact K B I False t i s)"
    by (rule triple_conseq [OF triple_ex [OF fetch_action_resting [OF d]]]) (auto simp: resting_def)
  show "triple (\<lambda>s. resting E exact K B I False t i s \<and> action s = a) (ret_ok ())
      (\<lambda>x s. returns x \<and> resting E exact K B I False t i s)" for a
    by (simp add: triple_def)
  then show "triple (\<lambda>s. resting E exact K B I False t i s \<and> action s = a) (ret_ok ())
      (\<lambda>x s. returns x \<and> resting E exact K B I False t i s)" for a .
qed

section \<open>Properties\<close>

text \<open>C5.
  The host serves every library that keeps to the protocol of its callbacks: whatever
  callbacks a library function makes, in whatever order, and whatever the operating
  system answers, none of them fails an assertion, leaves an array, or converts a value
  out of range; the function returns; afterwards exactly the connections the library holds have
  a socket in the table, no call has named a closed descriptor, and the reset flag, the
  pending action and the clock are untouched.
\<close>

theorem host_serves_protocol:
  assumes "obeys K I p C" and "host E exact K B v C s"
    and "run_state (run_prog (registered E K) put_adapter p) s = (a, s')"
  shows "\<exists>x C'. a = Ret x \<and> host E exact K B v C' s' \<and> I C' (adapter s')"
  using tripleD [OF bgb_host.run_obeys [OF assms(1)] assms(2,3)] by blast

text \<open>
  A library for the witnesses: it logs, opens connection 0, closes it again when that
  worked, and remembers how often it was started.
\<close>

definition start_lab :: "nat \<Rightarrow> (nat, unit) prog" where
  "start_lab l = Invoke (Debug_log ''start'') (\<lambda>_. Invoke (Time_latch 0) (\<lambda>_.
     Invoke (Sock_open 0 MOBILE_SOCKTYPE_TCP MOBILE_ADDRTYPE_IPV4 1027) (\<lambda>a.
       if a = A_bool True then Invoke (Sock_close 0) (\<lambda>_. Finish (Suc l) ()) else Finish l ())))"

lemma obeys_start_lab: "obeys consts_lab (\<lambda>C l. C = {}) (start_lab l) {}"
  by (auto simp: start_lab_def consts_lab_def)

definition user_lab_of :: "'l \<Rightarrow> 'l mobile_user" where
  "user_lab_of l = \<lparr>trace = [], errno = 0, stderr = [], sockets = [- 1, - 1], adapter = l, action = 0,
     config = \<lparr>content = [], fpos = 0, room = 100\<rparr>, reset = True, bgb_clock = 7, bgb_clock_init = True,
     bgb_clock_latch = [0, 0], number_user = replicate 5 (CHR 0x00), number_peer = replicate 5 (CHR 0x00), stdout = []\<rparr>"

lemma host_lab:
  assumes "fresh_fds E" and "fcntl_ok E"
  shows "host E True consts_lab {} (True, 0, 7, True) {} (user_lab_of l)"
proof -
  have "user_ok consts_lab (user_lab_of l)"
    by (simp add: user_ok_def user_lab_of_def consts_lab_def number_ok_def cstr_def ascii_def)
  moreover have "open_conns [- 1, - 1] = {}" by (auto simp: open_conns_def less_Suc_eq nth_Cons')
  ultimately show ?thesis
    using assms title_fits_lab
    by (auto simp: host_def table_def fds_def user_lab_of_def flags_def consts_lab_def table_ok_def slots_def
        intro!: exI [of _ "{}"])
qed

theorem host_serves_protocol_witness:
  "\<exists>x C'. result (run_prog (registered calm_lab consts_lab) put_adapter (start_lab 0)) (user_lab_of 0) = Ret x \<and>
     host calm_lab True consts_lab {} (True, 0, 7, True) C'
       (exec (run_prog (registered calm_lab consts_lab) put_adapter (start_lab 0)) (user_lab_of 0)) \<and>
     C' = {}"
proof -
  have "fcntl_ok calm_lab" by (simp add: calm_lab_def fcntl_ok_def lab_env_def ok_ret_def)
  from host_serves_protocol [OF obeys_start_lab host_lab [OF fresh_calm this] run_state_pair] show ?thesis .
qed

lemma andthen_returned:
  assumes "run_state (andthen m f) s = (x, s')" and "returns x"
  obtains y s1 where "run_state m s = (Ret y, s1)" and "run_state (f y) s1 = (x, s')"
  using assms by (auto simp: run_andthen returns_iff split: prod.splits cres.splits)

lemma handle_loop_result:
  assumes "run_state (mobile_handle_loop E K L) s = (x, s')" and "returns x"
  shows "x = Ret True"
  using assms(1) unfolding mobile_handle_loop_def
  by (elim andthen_returned [OF _ assms(2)]) simp

text \<open>\<open>mobile_stop(mobile->adapter); mobile_start(mobile->adapter); mobile->reset = false;\<close>\<close>

definition restarted ::
    "os_env \<Rightarrow> mobile_consts \<Rightarrow> 'l mobile_lib \<Rightarrow> ('l, 'a) mobile_user_scheme \<Rightarrow> ('l, 'a) mobile_user_scheme" where
  "restarted E K L s =
     (exec (andthen (call_lib E K (mobile_stop L)) (\<lambda>_. call_lib E K (mobile_start L))) s)\<lparr>reset := False\<rparr>"

lemma handle_reset_restarts:
  assumes "run_state (handle_reset E K L) s = (Ret (), s1)" and "reset s"
  shows "s1 = restarted E K L s" and "run_state (handle_reset E K L) (restarted E K L s) = (Ret (), s1)"
proof -
  show s1: "s1 = restarted E K L s"
    using assms by (auto simp: handle_reset_def restarted_def exec_def run_andthen split: prod.splits cres.splits)
  show "run_state (handle_reset E K L) (restarted E K L s) = (Ret (), s1)"
    unfolding s1 by (simp add: handle_reset_def restarted_def)
qed

text \<open>C14.
  A requested reset is carried out first and once: a round of the host from a state with
  the reset flag is the round from the state in which the adapter has been stopped and
  started and the flag cleared. After every round the flag is clear, the pending action
  does not ask for a reset of the serial port, which this emulator does not support, the
  clock is as it was, and the connections of host and library agree. The round always succeeds.
\<close>

theorem handle_loop_round:
  assumes "disciplined K L I" and "resting E exact K B I (reset s) t i s"
    and "run_state (mobile_handle_loop E K L) s = (x, s')"
  shows "x = Ret True \<and> (reset s \<longrightarrow> run_state (mobile_handle_loop E K L) (restarted E K L s) = (x, s')) \<and>
    \<not> reset s' \<and> action s' AND MOBILE_ACTION_RESET_SERIAL K = 0 \<and> bgb_clock s' = t \<and>
    (\<exists>C. host E exact K B (False, action s', t, i) C s' \<and> I C (adapter s'))"
proof -
  have r: "returns x" "resting E exact K B I False t i s'"
    using tripleD [OF mobile_handle_loop_resting [OF assms(1)] assms(2,3)] by auto
  obtain s1 where "run_state (handle_reset E K L) s = (Ret (), s1)"
    using assms(3) r(1) unfolding mobile_handle_loop_def by (elim andthen_returned) simp_all
  with assms(3) handle_reset_restarts [OF this]
  have "reset s \<Longrightarrow> run_state (mobile_handle_loop E K L) (restarted E K L s) = (x, s')"
    by (simp add: mobile_handle_loop_def run_andthen)
  moreover have "bgb_clock s' = t"
    using conjunct1 [OF resting_serving [OF r(2)]] by (auto simp: flags_def dest: serving_user_ok)
  ultimately show ?thesis
    using handle_loop_result [OF assms(3) r(1)] resting_serving [OF r(2)] resting_reset [OF r(2)]
    by (auto simp: serving_def)
qed

definition lib_lab :: "nat mobile_lib" where
  "lib_lab = \<lparr>mobile_new = Some 0, mobile_start = start_lab, mobile_stop = (\<lambda>l. Finish l ()),
     mobile_actions_get = (\<lambda>l. Finish l 5), mobile_actions_process = (\<lambda>a l. Finish (l + unat a) ()),
     mobile_transfer = (\<lambda>b l. Finish (l + unat b) (b + 1)), mobile_config_load = (\<lambda>l. Finish l ()),
     mobile_config_set_device = (\<lambda>d u l. Finish l ()), mobile_config_set_dns = (\<lambda>a i l. Finish l ()),
     mobile_config_set_p2p_port = (\<lambda>p l. Finish l ()), mobile_config_set_relay = (\<lambda>a l. Finish l ()),
     mobile_config_set_relay_token = (\<lambda>t l. Finish l ()), mobile_config_save = (\<lambda>l. Finish l ())\<rparr>"

lemma disciplined_lab: "disciplined consts_lab lib_lab (\<lambda>C l. C = {})"
  using obeys_start_lab by (auto simp: disciplined_def lib_lab_def)

lemma fcntl_calm: "fcntl_ok calm_lab"
  by (simp add: calm_lab_def fcntl_ok_def lab_env_def ok_ret_def)

lemma resting_lab: "resting calm_lab True consts_lab {} (\<lambda>C l. C = {}) True 7 True (user_lab_of (0 :: nat))"
  using host_lab [OF fresh_calm fcntl_calm]
  by (auto simp: resting_def serving_def intro!: exI [of _ 0])

theorem handle_loop_round_witness:
  "result (mobile_handle_loop calm_lab consts_lab lib_lab) (user_lab_of 0) = Ret True \<and>
   \<not> reset (exec (mobile_handle_loop calm_lab consts_lab lib_lab) (user_lab_of 0))"
proof -
  have "reset (user_lab_of (0 :: nat)) = True" by (simp add: user_lab_of_def)
  with handle_loop_round [OF disciplined_lab _ run_state_pair, of calm_lab True "{}" "user_lab_of 0" 7 True] resting_lab
  show ?thesis by simp
qed

text \<open>
  Three rounds of the link with the clock running, for an adapter that answers \<open>c + 1\<close>:
  the emulator sends \<open>0x99\<close> each time, and gets the idle byte and then the answers.
\<close>

definition link_host :: "(nat, unit) mobile_user_ext sock_os_ext os_scheme bgb_state" where
  "link_host = \<lparr>bgb_socket = 5, bgb_byte = 0xD2, callback_transfer = Some (bgb_loop_transfer sync_lab consts_lab lib_lab),
     callback_timestamp = Some bgb_loop_timestamp, timestamp_last = 0, timestamp_init = False\<rparr>"

theorem bgb_link_is_serial_port_witness:
  "\<exists>xs. serial_port (bgb_loop_transfer sync_lab consts_lab lib_lab) bgb_loop_timestamp 0xD2 (user_lab_of 0) xs 0x9A
       (exec (bgb_rounds sync_lab 3 link_host) (user_lab_of 0)) \<and>
     xs = [(0x99, 0xD2), (0x99, 0x9A), (0x99, 0x9A)]"
proof -
  let ?m = "bgb_rounds sync_lab 3 link_host" and ?s = "user_lab_of (0 :: nat)"
  have "case result ?m ?s of Ret (ok, st) \<Rightarrow> ok \<and> bgb_byte st = 0x9A | _ \<Rightarrow> False" by code_simp
  then obtain st' where run: "run_state ?m ?s = (Ret (True, st'), exec ?m ?s)" and b: "bgb_byte st' = 0x9A"
    by (auto simp: run_state_pair split: cres.splits prod.splits)
  have io: "bytes_in 5 (trace (exec ?m ?s)) = [0x99, 0x99, 0x99]" "bytes_out 5 (trace (exec ?m ?s)) = [0x9A, 0x9A, 0xD2]"
    by code_simp+
  from bgb_link_is_serial_port [OF _ _ _ run, of consts_lab lib_lab bgb_loop_timestamp] obtain xs where
    "serial_port (bgb_loop_transfer sync_lab consts_lab lib_lab) bgb_loop_timestamp 0xD2 ?s xs 0x9A (exec ?m ?s)"
    and xs: "map fst xs = [0x99, 0x99, 0x99]" "map snd xs = [0xD2, 0x9A, 0x9A]"
    using b io by (auto simp: link_host_def user_lab_of_def)
  moreover have "xs = zip (map fst xs) (map snd xs)" by (simp add: zip_map_fst_snd)
  ultimately show ?thesis unfolding xs by auto
qed

end
