(* ===== verification/Options.thy ===== *)
theory Options
  imports Mobile_User
begin

text \<open>
  The command line, \<open>source/main.c\<close> lines 238 to 424: the help texts, the checks of
  parameters, addresses, numbers and hexadecimal tokens, and the loop over the
  arguments. \<open>mobile_inet_pton\<close> is libmobile's and a parameter; \<open>strtol\<close> is the C library's and
  is modelled for the bases the program uses.
\<close>

section \<open>Leaving the program\<close>

text \<open>\<open>Exit code text\<close>: the text has been written to the standard error stream.\<close>

datatype 'a step = Exit int string | Go 'a

abbreviation EXIT_SUCCESS :: int where "EXIT_SUCCESS \<equiv> 0"
abbreviation EXIT_FAILURE :: int where "EXIT_FAILURE \<equiv> 1"

definition usage :: "string \<Rightarrow> string" where
  "usage program_name = program_name @ '' [-h] [-c config] [options] [bgb_host [bgb_port]]'' @ newline"

definition show_help :: "string \<Rightarrow> string \<Rightarrow> 'a step" where
  "show_help program_name before = Exit EXIT_FAILURE (before @ usage program_name)"

definition show_help_full :: "string \<Rightarrow> 'a step" where
  "show_help_full program_name = Exit EXIT_SUCCESS (usage program_name @ newline @
     ''-h|--help           Show this help'' @ newline @
     ''-c|--config config  Config file path'' @ newline @
     ''--device device     Adapter to emulate'' @ newline @
     ''--unmetered         Signal unmetered communications to Pok'' @ [CHR 0xC3, CHR 0xA9] @ ''mon'' @ newline @
     ''--dns1 addr         Set DNS1 address override'' @ newline @
     ''--dns2 addr         Set DNS2 address override'' @ newline @
     ''--dns_port port     Set DNS port for address overrides'' @ newline @
     ''--p2p_port port     Port to use for relay-less P2P communications'' @ newline @
     ''--relay addr        Set relay server for P2P communications'' @ newline @
     ''--relay-token hex   Set relay token (or empty to clear)'' @ newline)"

section \<open>Numbers\<close>

text \<open>
  \<open>strtol\<close> for the bases 10 and 0, with a 64-bit \<open>long\<close>: the value and the rest of the
  string (\<open>endptr\<close>). When there are no digits the rest is the whole string.
\<close>

definition c_isspace :: "char \<Rightarrow> bool" where
  "c_isspace c \<longleftrightarrow> c = CHR '' '' \<or> of_char c \<in> {9 .. 13 :: nat}"

definition digit_value :: "char \<Rightarrow> nat" where
  "digit_value c = (let n = of_char c in
     if 48 \<le> n \<and> n \<le> 57 then n - 48 else if 65 \<le> n \<and> n \<le> 90 then n - 55
     else if 97 \<le> n \<and> n \<le> 122 then n - 87 else 36)"

definition digits_value :: "nat \<Rightarrow> string \<Rightarrow> nat" where
  "digits_value b ds = foldl (\<lambda>v c. v * b + digit_value c) 0 ds"

definition split_sign :: "string \<Rightarrow> bool \<times> string" where
  "split_sign t = (case t of
       c # t' \<Rightarrow> if c = CHR ''-'' then (True, t') else if c = CHR ''+'' then (False, t') else (False, t)
     | [] \<Rightarrow> (False, t))"

definition split_base :: "nat \<Rightarrow> string \<Rightarrow> nat \<times> string" where
  "split_base base t =
     (if base \<noteq> 0 then (base, t)
      else case t of
        z # x # d # t' \<Rightarrow>
          if z = CHR ''0'' \<and> (x = CHR ''x'' \<or> x = CHR ''X'') \<and> digit_value d < 16 then (16, d # t')
          else if z = CHR ''0'' then (8, t) else (10, t)
      | z # _ \<Rightarrow> if z = CHR ''0'' then (8, t) else (10, t)
      | [] \<Rightarrow> (10, t))"

definition clamp_long :: "int \<Rightarrow> int" where
  "clamp_long v = max (- (2 ^ 63)) (min (2 ^ 63 - 1) v)"

definition strtol :: "nat \<Rightarrow> string \<Rightarrow> int \<times> string" where
  "strtol base str =
     (let (neg, t) = split_sign (dropWhile c_isspace str);
          (b, t) = split_base base t;
          ds = takeWhile (\<lambda>c. digit_value c < b) t
      in if ds = [] then (0, str)
         else (clamp_long (if neg then - int (digits_value b ds) else int (digits_value b ds)),
               dropWhile (\<lambda>c. digit_value c < b) t))"

section \<open>Parameters\<close>

text \<open>\<open>mobile_inet_pton\<close>: what it found and the bytes of the address.\<close>

datatype pton = PTON_IPV4 "byte list" | PTON_IPV6 "byte list" | PTON_FAIL

text \<open>\<open>argv[0]\<close> is the option, \<open>argv[1]\<close> its parameter if there is one.\<close>

definition main_checkparam :: "string \<Rightarrow> string \<Rightarrow> string list \<Rightarrow> string step" where
  "main_checkparam program_name opt rest =
     (case rest of
        [] \<Rightarrow> show_help program_name (''Missing parameter for '' @ opt @ newline)
      | p # _ \<Rightarrow> Go p)"

definition main_parse_addr ::
    "(string \<Rightarrow> pton) \<Rightarrow> string \<Rightarrow> mobile_addr \<Rightarrow> string \<Rightarrow> string \<Rightarrow> mobile_addr step" where
  "main_parse_addr inet_pton program_name dest opt param =
     (case inet_pton param of
        PTON_IPV4 ip \<Rightarrow> Go (dest\<lparr>addr_type := MOBILE_ADDRTYPE_IPV4, addr_host := take 4 ip\<rparr>)
      | PTON_IPV6 ip \<Rightarrow> Go (dest\<lparr>addr_type := MOBILE_ADDRTYPE_IPV6, addr_host := take 16 ip\<rparr>)
      | PTON_FAIL \<Rightarrow> show_help program_name (''Invalid parameter for '' @ opt @ '': '' @ param @ newline))"

definition main_set_port :: "mobile_addr \<Rightarrow> u32 \<Rightarrow> mobile_addr" where
  "main_set_port dest port =
     (case addr_type dest of
        MOBILE_ADDRTYPE_IPV4 \<Rightarrow> dest\<lparr>addr_port := port\<rparr>
      | MOBILE_ADDRTYPE_IPV6 \<Rightarrow> dest\<lparr>addr_port := port\<rparr>
      | ADDRTYPE_OTHER \<Rightarrow> dest)"

text \<open>A hexadecimal digit; \<open>None\<close> where \<open>main_parse_hex\<close> returns false.\<close>

definition parse_hex_char :: "char \<Rightarrow> nat option" where
  "parse_hex_char c = (let n = of_char c in
     if 48 \<le> n \<and> n \<le> 57 then Some (n - 48)
     else if 65 \<le> n \<and> n \<le> 70 then Some (n - 55)
     else if 97 \<le> n \<and> n \<le> 102 then Some (n - 87)
     else None)"

text \<open>The loop over \<open>i\<close>, with \<open>x\<close> and \<open>buf\<close>; \<open>str[i]\<close> at the end of the string is the terminator.\<close>

fun main_parse_hex_loop :: "string \<Rightarrow> nat list \<Rightarrow> byte \<Rightarrow> byte list \<Rightarrow> byte list option" where
  "main_parse_hex_loop str [] x buf = Some buf"
| "main_parse_hex_loop str (i # is) x buf =
     (case parse_hex_char (if i < length str then str ! i else CHR 0x00) of
        None \<Rightarrow> None
      | Some c \<Rightarrow>
          let x = push_bit 4 x OR of_nat c
          in if i mod 2 = 1 then main_parse_hex_loop str is 0 (buf[i div 2 := x])
             else main_parse_hex_loop str is x buf)"

definition main_parse_hex :: "byte list \<Rightarrow> string \<Rightarrow> nat \<Rightarrow> byte list option" where
  "main_parse_hex buf str n = main_parse_hex_loop str [0..<n * 2] 0 buf"

section \<open>The loop over the arguments\<close>

text \<open>The local variables of main that the loop sets.\<close>

record options =
  opt_host :: string
  opt_port :: string
  fname_config :: string
  device :: u32
  device_unmetered :: bool
  dns1 :: mobile_addr
  dns2 :: mobile_addr
  dns_port :: u32
  p2p_port :: u32
  relay :: mobile_addr
  relay_token_update :: bool
  relay_token_ptr :: "byte list option"

definition default_options :: "mobile_consts \<Rightarrow> options" where
  "default_options K = \<lparr>opt_host = ''127.0.0.1'', opt_port = ''8765'', fname_config = ''config.bin'',
     device = MOBILE_ADAPTER_BLUE K, device_unmetered = False, dns1 = zero_addr K, dns2 = zero_addr K,
     dns_port = MOBILE_DNS_PORT K, p2p_port = MOBILE_DEFAULT_P2P_PORT K, relay = zero_addr K,
     relay_token_update = False, relay_token_ptr = None\<rparr>"

text \<open>
  One pass through the loop's body for the option \<open>opt\<close>: \<open>Break\<close> leaves the loop at the
  arguments given; \<open>Next\<close> continues, after \<open>argv += 1\<close> when the flag is set; \<open>Quit\<close> ends the program.
\<close>

datatype pass = Break options "string list" | Next options bool | Quit int string

definition stepping :: "'a step \<Rightarrow> ('a \<Rightarrow> pass) \<Rightarrow> pass" where
  "stepping r f = (case r of Exit code msg \<Rightarrow> Quit code msg | Go x \<Rightarrow> f x)"

definition dns_port_option :: "string \<Rightarrow> options \<Rightarrow> string \<Rightarrow> string \<Rightarrow> pass" where
  "dns_port_option program_name o1 opt param =
     (let (v, endptr) = strtol 10 param
      in if opt = [] \<or> endptr \<noteq> []
         then stepping (show_help program_name (''Invalid parameter for --dns_port: '' @ param @ newline)) (\<lambda>x. x)
         else Next (o1\<lparr>dns_port := word_of_int v\<rparr>) True)"

text \<open>
  \<open>relay_token_buf\<close> is uninitialised; its contents do not matter, as a token that is used
  fills it.
\<close>

definition relay_token_option :: "mobile_consts \<Rightarrow> string \<Rightarrow> options \<Rightarrow> string \<Rightarrow> pass" where
  "relay_token_option K program_name o1 param =
     (let n = MOBILE_RELAY_TOKEN_SIZE K;
          tok = (if length param = 0 then Some None
                 else if length param = n * 2 then map_option Some (main_parse_hex (replicate n 0) param n)
                 else None)
      in case tok of
           Some t \<Rightarrow> Next (o1\<lparr>relay_token_update := True, relay_token_ptr := t\<rparr>) True
         | None \<Rightarrow> stepping (show_help program_name (''Invalid parameter for --relay-token: '' @ param @ newline)) (\<lambda>x. x))"

definition main_option ::
    "mobile_consts \<Rightarrow> (string \<Rightarrow> pton) \<Rightarrow> string \<Rightarrow> options \<Rightarrow> string \<Rightarrow> string list \<Rightarrow> pass" where
  "main_option K inet_pton program_name o1 opt rest =
     (let checkparam = stepping (main_checkparam program_name opt rest);
          parse_addr = (\<lambda>dest param. stepping (main_parse_addr inet_pton program_name dest opt param))
      in
      if opt = [] \<or> hd opt \<noteq> CHR ''-'' then Break o1 (opt # rest)
      else if opt = ''--'' then Break o1 rest
      else if opt = ''-h'' \<or> opt = ''--help'' then stepping (show_help_full program_name) (\<lambda>x. x)
      else if opt = ''-c'' \<or> opt = ''--config'' then
        checkparam (\<lambda>param. Next (o1\<lparr>fname_config := param\<rparr>) True)
      else if opt = ''--device'' then
        checkparam (\<lambda>param. Next (o1\<lparr>device := word_of_int (fst (strtol 0 param))\<rparr>) True)
      else if opt = ''--unmetered'' then Next (o1\<lparr>device_unmetered := True\<rparr>) False
      else if opt = ''--dns1'' then
        checkparam (\<lambda>param. parse_addr (dns1 o1) param (\<lambda>a. Next (o1\<lparr>dns1 := a\<rparr>) True))
      else if opt = ''--dns2'' then
        checkparam (\<lambda>param. parse_addr (dns2 o1) param (\<lambda>a. Next (o1\<lparr>dns2 := a\<rparr>) True))
      else if opt = ''--dns_port'' then checkparam (\<lambda>param. dns_port_option program_name o1 opt param)
      else if opt = ''--p2p_port'' then
        checkparam (\<lambda>param. Next (o1\<lparr>p2p_port := word_of_int (fst (strtol 0 param))\<rparr>) True)
      else if opt = ''--relay'' then
        checkparam (\<lambda>param. parse_addr (relay o1) param
          (\<lambda>a. Next (o1\<lparr>relay := main_set_port a (MOBILE_DEFAULT_RELAY_PORT K)\<rparr>) True))
      else if opt = ''--relay-token'' then checkparam (\<lambda>param. relay_token_option K program_name o1 param)
      else stepping (show_help program_name (''Unknown option: '' @ opt @ newline)) (\<lambda>x. x))"

function main_args ::
    "mobile_consts \<Rightarrow> (string \<Rightarrow> pton) \<Rightarrow> string \<Rightarrow> options \<Rightarrow> string list \<Rightarrow> (options \<times> string list) step" where
  "main_args K inet_pton program_name o1 [] = Go (o1, [])"
| "main_args K inet_pton program_name o1 (opt # rest) =
     (case main_option K inet_pton program_name o1 opt rest of
        Break o2 args \<Rightarrow> Go (o2, args)
      | Next o2 skip \<Rightarrow> main_args K inet_pton program_name o2 (if skip then tl rest else rest)
      | Quit code msg \<Rightarrow> Exit code msg)"
  by pat_completeness auto
termination by (relation "measure (\<lambda>(_, _, _, _, args). length args)") (auto simp: le_imp_less_Suc)

text \<open>The arguments after \<open>argv[0]\<close>; at the end the positional arguments and the DNS ports.\<close>

definition main_options ::
    "mobile_consts \<Rightarrow> (string \<Rightarrow> pton) \<Rightarrow> string \<Rightarrow> string list \<Rightarrow> options step" where
  "main_options K inet_pton program_name args =
     (case main_args K inet_pton program_name (default_options K) args of
        Exit code msg \<Rightarrow> Exit code msg
      | Go (o1, argv) \<Rightarrow>
          let o2 = (case argv of [] \<Rightarrow> o1 | h # _ \<Rightarrow> o1\<lparr>opt_host := h\<rparr>);
              o3 = (case argv of _ # p # _ \<Rightarrow> o2\<lparr>opt_port := p\<rparr> | _ \<Rightarrow> o2)
          in Go (o3\<lparr>dns1 := main_set_port (dns1 o3) (dns_port o3),
                    dns2 := main_set_port (dns2 o3) (dns_port o3)\<rparr>))"

section \<open>Hexadecimal tokens\<close>

text \<open>The way back: two digits per byte.\<close>

definition token_hex :: "byte list \<Rightarrow> string" where
  "token_hex bs = concat (map (\<lambda>b. show_hex 2 (unat b)) bs)"

lemma parse_hex_char_hex_char: "n < 16 \<Longrightarrow> parse_hex_char (hex_char n) = Some n"
  by (auto simp: parse_hex_char_def hex_char_def Let_def)

lemma parse_hex_char_range: "parse_hex_char c = Some n \<Longrightarrow> n < 16"
  by (auto simp: parse_hex_char_def Let_def split: if_splits)

lemma nibbles:
  assumes "l < 16"
  shows "push_bit 4 (push_bit 4 0 OR of_nat h) OR of_nat l = (of_nat (h * 16 + l) :: byte)"
proof -
  have l: "take_bit 4 l = l" using assms by (simp add: take_bit_nat_eq_self)
  have "push_bit 4 h AND take_bit 4 l = 0"
    by (rule bit_eqI) (auto simp: bit_and_iff bit_push_bit_iff bit_take_bit_iff)
  then have "push_bit 4 h + take_bit 4 l = push_bit 4 h OR take_bit 4 l"
    by (rule disjunctive_add_eq_or)
  then have "h * 16 + l = push_bit 4 h OR l" by (simp add: l push_bit_eq_mult)
  then show ?thesis by (simp only: of_nat_or_eq of_nat_push_bit push_bit_of_0 or.left_neutral)
qed

text \<open>The loop from an even position on: each pair of digits is a byte.\<close>

fun hex_pairs :: "string \<Rightarrow> byte list option" where
  "hex_pairs [] = Some []"
| "hex_pairs [c] = None"
| "hex_pairs (c # d # s) =
     (case (parse_hex_char c, parse_hex_char d, hex_pairs s) of
        (Some h, Some l, Some bs) \<Rightarrow> Some (of_nat (h * 16 + l) # bs)
      | _ \<Rightarrow> None)"

lemma hex_loop_pairs:
  assumes "length str = 2 * n" and "length buf = n" and "k \<le> n"
  shows "main_parse_hex_loop str [2 * k..<2 * n] 0 buf = map_option ((@) (take k buf)) (hex_pairs (drop (2 * k) str))"
  using assms
proof (induction "n - k" arbitrary: k buf)
  case 0
  then show ?case by simp
next
  case (Suc m)
  then have k: "k < n" by simp
  then have up: "[2 * k..<2 * n] = 2 * k # Suc (2 * k) # [2 * Suc k..<2 * n]"
    by (simp add: upt_conv_Cons)
  have dr: "drop (2 * k) str = str ! (2 * k) # str ! Suc (2 * k) # drop (2 * Suc k) str"
    using k Suc.prems(1) by (simp add: Cons_nth_drop_Suc)
  show ?case
  proof (cases "parse_hex_char (str ! (2 * k))")
    case None
    with k Suc.prems show ?thesis by (simp add: up dr)
  next
    case (Some h)
    show ?thesis
    proof (cases "parse_hex_char (str ! Suc (2 * k))")
      case None
      with Some k Suc.prems show ?thesis by (simp add: up dr)
    next
      case l: (Some l)
      have IH: "main_parse_hex_loop str [2 * Suc k..<2 * n] 0 (buf[k := of_nat (h * 16 + l)]) =
          map_option ((@) (take (Suc k) (buf[k := of_nat (h * 16 + l)]))) (hex_pairs (drop (2 * Suc k) str))"
        using Suc k by (intro Suc.hyps(1)) simp_all
      have "take (Suc k) (buf[k := of_nat (h * 16 + l)]) = take k buf @ [of_nat (h * 16 + l)]"
        using k Suc.prems(2) by (simp add: take_Suc_conv_app_nth)
      with IH Some l k Suc.prems(1) nibbles [OF parse_hex_char_range [OF l], of h] show ?thesis
        by (simp add: up dr option.map_comp comp_def split: option.split)
    qed
  qed
qed

definition hex_upper :: "char \<Rightarrow> char" where
  "hex_upper c = (if of_char c \<in> {97 .. 102 :: nat} then char_of (of_char c - 32 :: nat) else c)"

lemma parse_hex_char_upper: "parse_hex_char c = Some h \<longleftrightarrow> h < 16 \<and> hex_upper c = hex_char h"
proof
  assume "parse_hex_char c = Some h"
  then show "h < 16 \<and> hex_upper c = hex_char h"
    by (auto simp: parse_hex_char_def hex_upper_def hex_char_def Let_def split: if_splits)
next
  assume h: "h < 16 \<and> hex_upper c = hex_char h"
  have "parse_hex_char (hex_upper c) = parse_hex_char c"
    by (auto simp: parse_hex_char_def hex_upper_def Let_def)
  with h parse_hex_char_hex_char show "parse_hex_char c = Some h" by simp
qed

lemma token_hex_simps [simp]:
  "token_hex [] = []"
  "token_hex (b # bs) = hex_char (unat b div 16) # hex_char (unat b mod 16) # token_hex bs"
proof -
  have "unat b div 16 < 16" using unsigned_less [of b, where ?'a = nat] by simp
  then show "token_hex (b # bs) = hex_char (unat b div 16) # hex_char (unat b mod 16) # token_hex bs"
    by (simp add: token_hex_def numeral_2_eq_2)
qed (simp add: token_hex_def)

lemma byte_nibbles: "h < 16 \<Longrightarrow> l < 16 \<Longrightarrow> unat (of_nat (h * 16 + l) :: byte) = h * 16 + l"
  by (simp add: unsigned_of_nat take_bit_nat_eq_self del: of_nat_add of_nat_mult)

lemma hex_pairs_iff: "hex_pairs str = Some bs \<longleftrightarrow> token_hex bs = map hex_upper str"
proof (induction str arbitrary: bs rule: hex_pairs.induct)
  case 1
  then show ?case by (cases bs) auto
next
  case (2 c)
  then show ?case by (cases bs) auto
next
  case (3 c d s)
  show ?case
  proof
    assume "hex_pairs (c # d # s) = Some bs"
    then obtain h l bs' where hl: "parse_hex_char c = Some h" "parse_hex_char d = Some l" "hex_pairs s = Some bs'"
      and bs: "bs = of_nat (h * 16 + l) # bs'"
      by (auto split: option.splits)
    have "unat (of_nat (h * 16 + l) :: byte) = h * 16 + l" "h < 16" "l < 16"
      using byte_nibbles hl(1,2) by (simp_all add: parse_hex_char_upper)
    with hl 3 show "token_hex bs = map hex_upper (c # d # s)"
      unfolding bs token_hex_simps by (simp add: parse_hex_char_upper)
  next
    assume t: "token_hex bs = map hex_upper (c # d # s)"
    then obtain b bs' where bs: "bs = b # bs'" by (cases bs) auto
    have "unat b div 16 < 16" using unsigned_less [of b, where ?'a = nat] by simp
    then have "parse_hex_char c = Some (unat b div 16)" "parse_hex_char d = Some (unat b mod 16)" "hex_pairs s = Some bs'"
      using t 3 by (simp_all add: bs parse_hex_char_upper)
    then show "hex_pairs (c # d # s) = Some bs"
      by (simp add: bs div_mult_mod_eq flip: of_nat_mult of_nat_add)
  qed
qed

text \<open>C24.
  Reading a relay token undoes printing it: a string of the right length is accepted
  exactly when it is the hexadecimal form of some token, in upper or lower case, and the
  bytes stored are those of that token, whatever the buffer held before.
\<close>

theorem main_parse_hex_exact:
  assumes "length buf = n" and "length str = 2 * n"
  shows "main_parse_hex buf str n = Some bs \<longleftrightarrow> token_hex bs = map hex_upper str"
  using hex_loop_pairs [OF assms(2,1), of 0] assms(1)
  by (simp add: main_parse_hex_def mult.commute hex_pairs_iff flip: hex_pairs_iff)

theorem main_parse_hex_exact_witness:
  "main_parse_hex [0, 0] ''a0FF'' 2 = Some [0xA0, 0xFF]"
proof -
  have "token_hex [0xA0, 0xFF] = map hex_upper ''a0FF''" by code_simp
  with main_parse_hex_exact [of "[0, 0]" 2 "''a0FF''" "[0xA0, 0xFF]"] show ?thesis by simp
qed

section \<open>What the options mean together\<close>

definition ip_addr :: "mobile_addr \<Rightarrow> bool" where
  "ip_addr a \<longleftrightarrow> addr_type a \<noteq> ADDRTYPE_OTHER"

definition relay_ok :: "mobile_consts \<Rightarrow> options \<Rightarrow> bool" where
  "relay_ok K o1 \<longleftrightarrow> (ip_addr (relay o1) \<longrightarrow> addr_port (relay o1) = MOBILE_DEFAULT_RELAY_PORT K) \<and>
     (relay_token_ptr o1 \<noteq> None \<longrightarrow> relay_token_update o1) \<and>
     (\<forall>t. relay_token_ptr o1 = Some t \<longrightarrow> length t = MOBILE_RELAY_TOKEN_SIZE K)"

lemma addr_port_set [simp]: "ip_addr a \<Longrightarrow> addr_port (main_set_port a p) = p"
  by (auto simp: main_set_port_def ip_addr_def split: mobile_addrtype.split)

lemma ip_addr_set [simp]: "ip_addr (main_set_port a p) = ip_addr a"
  by (auto simp: main_set_port_def ip_addr_def split: mobile_addrtype.split)

lemma main_parse_addr_ip: "main_parse_addr pt prog a opt p = Go b \<Longrightarrow> ip_addr b"
  by (auto simp: main_parse_addr_def ip_addr_def show_help_def split: pton.splits)

text \<open>
  An invariant of the loop, and a small calculus for it: every way to go on from one
  pass keeps \<open>P\<close>, and the program is left with one of the two exit codes only.
\<close>

fun goes_on :: "(options \<Rightarrow> bool) \<Rightarrow> pass \<Rightarrow> bool" where
  "goes_on P (Break o2 _) = P o2"
| "goes_on P (Next o2 _) = P o2"
| "goes_on P (Quit code _) = (code \<in> {EXIT_SUCCESS, EXIT_FAILURE})"

definition exits :: "'a step \<Rightarrow> bool" where
  "exits r \<longleftrightarrow> (\<forall>code msg. r = Exit code msg \<longrightarrow> code \<in> {EXIT_SUCCESS, EXIT_FAILURE})"

lemma exits_checkparam: "exits (main_checkparam prog opt rest)"
  by (auto simp: exits_def main_checkparam_def show_help_def split: list.splits)

lemma exits_parse_addr: "exits (main_parse_addr pt prog a opt param)"
  by (auto simp: exits_def main_parse_addr_def show_help_def split: pton.splits)

lemma goes_on_if: "goes_on P p \<Longrightarrow> goes_on P q \<Longrightarrow> goes_on P (if b then p else q)"
  by simp

lemma goes_on_stepping: "(\<And>x. r = Go x \<Longrightarrow> goes_on P (f x)) \<Longrightarrow> exits r \<Longrightarrow> goes_on P (stepping r f)"
  by (auto simp: stepping_def exits_def split: step.split)

lemma goes_on_help: "goes_on P (stepping (show_help prog msg) f)" "goes_on P (stepping (show_help_full prog) f)"
  by (simp_all add: stepping_def show_help_def show_help_full_def)

lemma goes_on_next: "P o2 \<Longrightarrow> goes_on P (Next o2 b)" and goes_on_break: "P o2 \<Longrightarrow> goes_on P (Break o2 args)"
  by simp_all

lemmas goes_on_intros = goes_on_if goes_on_help goes_on_stepping goes_on_next goes_on_break exits_checkparam exits_parse_addr

lemma hex_loop_length: "main_parse_hex_loop str is x buf = Some bs \<Longrightarrow> length bs = length buf"
  by (induction str "is" x buf rule: main_parse_hex_loop.induct) (auto simp: Let_def split: option.splits if_splits)

lemma relay_token_option_ok: "relay_ok K o1 \<Longrightarrow> goes_on (relay_ok K) (relay_token_option K prog o1 param)"
  by (auto simp: relay_token_option_def relay_ok_def Let_def goes_on_help main_parse_hex_def
      dest: hex_loop_length split: option.split)

lemma dns_port_option_ok: "relay_ok K o1 \<Longrightarrow> goes_on (relay_ok K) (dns_port_option prog o1 opt param)"
  by (auto simp: dns_port_option_def relay_ok_def Let_def goes_on_help split: prod.split)

lemma main_option_ok:
  assumes "relay_ok K o1"
  shows "goes_on (relay_ok K) (main_option K pt prog o1 opt rest)"
  unfolding main_option_def Let_def
  by (intro goes_on_intros relay_token_option_ok dns_port_option_ok assms)
    (use assms main_parse_addr_ip in \<open>auto simp: relay_ok_def\<close>)

lemma main_args_ok:
  "relay_ok K o1 \<Longrightarrow> main_args K pt prog o1 args = Go (o2, argv) \<Longrightarrow> relay_ok K o2"
proof (induction K pt prog o1 args rule: main_args.induct)
  case (2 K pt prog o1 opt rest)
  then show ?case using main_option_ok [OF 2(2), of pt prog opt rest]
    by (auto split: pass.splits if_splits)
qed simp

lemma main_args_exit:
  "relay_ok K o1 \<Longrightarrow> main_args K pt prog o1 args = Exit code msg \<Longrightarrow> code \<in> {EXIT_SUCCESS, EXIT_FAILURE}"
proof (induction K pt prog o1 args rule: main_args.induct)
  case (2 K pt prog o1 opt rest)
  then show ?case using main_option_ok [OF 2(2), of pt prog opt rest]
    by (auto split: pass.splits if_splits)
qed simp

lemma relay_ok_default: "addr_type (zero_addr K) = ADDRTYPE_OTHER \<Longrightarrow> relay_ok K (default_options K)"
  by (simp add: relay_ok_def default_options_def ip_addr_def)

lemma main_options_exit:
  "addr_type (zero_addr K) = ADDRTYPE_OTHER \<Longrightarrow> main_options K pt prog args = Exit code msg \<Longrightarrow>
   code \<in> {EXIT_SUCCESS, EXIT_FAILURE}"
  by (auto simp: main_options_def Let_def split: step.splits dest: main_args_exit [OF relay_ok_default])

text \<open>C19.
  However the options are ordered and repeated: when the program starts, both DNS
  addresses that were given carry the DNS port, the relay address carries the relay's default port,
  and a relay token that is set has the token's length and is marked for an update.
\<close>

theorem main_options_consistent:
  assumes "main_options K pt prog args = Go o1" and "addr_type (zero_addr K) = ADDRTYPE_OTHER"
  shows "(ip_addr (dns1 o1) \<longrightarrow> addr_port (dns1 o1) = dns_port o1) \<and>
    (ip_addr (dns2 o1) \<longrightarrow> addr_port (dns2 o1) = dns_port o1) \<and> relay_ok K o1"
proof -
  obtain o2 argv where args: "main_args K pt prog (default_options K) args = Go (o2, argv)"
    using assms(1) by (auto simp: main_options_def split: step.splits)
  from main_args_ok [OF relay_ok_default [OF assms(2)] args] have "relay_ok K o2" .
  then show ?thesis
    using assms(1) by (auto simp: main_options_def args Let_def relay_ok_def split: list.splits)
qed

definition pton_lab :: "string \<Rightarrow> pton" where
  "pton_lab t = (if t = ''10.0.0.1'' then PTON_IPV4 [10, 0, 0, 1] else PTON_FAIL)"

definition args_lab :: "string list" where
  "args_lab = [''--dns1'', ''10.0.0.1'', ''--dns_port'', ''5353'', ''--relay-token'', ''a0FF'', ''localhost'']"

theorem main_options_consistent_witness:
  "\<exists>o1. main_options consts_lab pton_lab ''mobile'' args_lab = Go o1 \<and> addr_port (dns1 o1) = dns_port o1"
proof -
  have "case main_options consts_lab pton_lab ''mobile'' args_lab of Go o1 \<Rightarrow> ip_addr (dns1 o1) | _ \<Rightarrow> False"
    by code_simp
  then obtain o1 where "main_options consts_lab pton_lab ''mobile'' args_lab = Go o1" "ip_addr (dns1 o1)"
    by (auto split: step.splits)
  with main_options_consistent [OF this(1)] show ?thesis by (auto simp: consts_lab_def)
qed

section \<open>Decimal numbers\<close>

lemma digit_value_char: "n < 10 \<Longrightarrow> digit_value (char_of (48 + n)) = n"
  by (simp add: digit_value_def Let_def)

lemma show_nat_digits: "show_nat n \<noteq> [] \<and> (\<forall>c \<in> set (show_nat n). of_char c \<in> {48 .. 57 :: nat})"
proof (induction n rule: show_nat.induct)
  case (1 n)
  then show ?case by (cases "n < 10") (auto simp: show_nat.simps [of n])
qed

lemma digits_value_show_nat: "digits_value 10 (show_nat n) = n"
proof (induction n rule: show_nat.induct)
  case (1 n)
  show ?case
  proof (cases "n < 10")
    case True
    then show ?thesis by (simp add: show_nat.simps [of n] digits_value_def digit_value_char)
  next
    case False
    have "n div 10 * 10 + n mod 10 = n" by simp
    with 1 False show ?thesis
      by (simp add: show_nat.simps [of n] digits_value_def digit_value_char)
  qed
qed

lemma strtol_show_nat:
  assumes "n < 2 ^ 63"
  shows "strtol 10 (show_nat n) = (int n, [])"
proof -
  have d: "digit_value c < 10 \<and> \<not> c_isspace c \<and> c \<noteq> CHR ''-'' \<and> c \<noteq> CHR ''+''" if "c \<in> set (show_nat n)" for c
    using show_nat_digits [of n] that by (auto simp: digit_value_def c_isspace_def Let_def)
  then have "dropWhile c_isspace (show_nat n) = show_nat n" "split_sign (show_nat n) = (False, show_nat n)"
    by (cases "show_nat n"; simp add: split_sign_def)+
  moreover have "takeWhile (\<lambda>c. digit_value c < 10) (show_nat n) = show_nat n"
    "dropWhile (\<lambda>c. digit_value c < 10) (show_nat n) = []"
    using d by (simp_all add: takeWhile_eq_all_conv dropWhile_eq_Nil_conv)
  ultimately show ?thesis
    using assms show_nat_digits [of n]
    by (simp add: strtol_def Let_def split_base_def digits_value_show_nat clamp_long_def
        del: takeWhile_eq_all_conv dropWhile_eq_Nil_conv)
qed

text \<open>
  A decimal number as \<open>strtol\<close> reads it: white space, at most one sign, and at least one
  digit up to the end of the string.
\<close>

definition numeral_text :: "string \<Rightarrow> bool" where
  "numeral_text p \<longleftrightarrow> (\<exists>ws sg ds. p = ws @ sg @ ds \<and> (\<forall>c \<in> set ws. c_isspace c) \<and> sg \<in> {[], ''-'', ''+''} \<and>
     ds \<noteq> [] \<and> (\<forall>c \<in> set ds. of_char c \<in> {48 .. 57 :: nat}))"

lemma digit_10: "digit_value c < 10 \<longleftrightarrow> of_char c \<in> {48 .. 57 :: nat}"
  by (auto simp: digit_value_def Let_def)

lemma split_sign_cases: "\<exists>sg \<in> {[], ''-'', ''+''}. t = sg @ snd (split_sign t)"
  by (auto simp: split_sign_def split: list.split)

lemma strtol_stops: "snd (strtol 10 p) = [] \<longleftrightarrow> p = [] \<or> numeral_text p"
proof
  let ?t = "dropWhile c_isspace p"
  let ?u = "snd (split_sign ?t)"
  have st: "snd (strtol 10 p) = (if takeWhile (\<lambda>c. digit_value c < 10) ?u = [] then p else dropWhile (\<lambda>c. digit_value c < 10) ?u)"
    by (simp add: strtol_def Let_def split_base_def split: prod.split)
  show "p = [] \<or> numeral_text p" if "snd (strtol 10 p) = []"
  proof (cases "takeWhile (\<lambda>c. digit_value c < 10) ?u = []")
    case True
    with that st show ?thesis by simp
  next
    case False
    with that st have d: "\<forall>c \<in> set ?u. digit_value c < 10" "?u \<noteq> []" by (auto simp: dropWhile_eq_Nil_conv)
    obtain sg where "sg \<in> {[], ''-'', ''+''}" "?t = sg @ ?u" using split_sign_cases [of ?t] by blast
    moreover have "p = takeWhile c_isspace p @ ?t" by simp
    ultimately show ?thesis
      using d unfolding numeral_text_def digit_10 by (metis set_takeWhileD)
  qed
  assume "p = [] \<or> numeral_text p"
  then show "snd (strtol 10 p) = []"
  proof
    assume "p = []"
    then show ?thesis using st by (simp add: split_sign_def)
  next
    assume "numeral_text p"
    then obtain ws sg ds where p: "p = ws @ sg @ ds" "\<forall>c \<in> set ws. c_isspace c" "sg \<in> {[], ''-'', ''+''}" "ds \<noteq> []"
      and d: "\<forall>c \<in> set ds. of_char c \<in> {48 .. 57 :: nat}"
      by (auto simp: numeral_text_def)
    obtain x xs where ds: "ds = x # xs" using p(4) by (cases ds) auto
    with d have x: "\<not> c_isspace x \<and> x \<noteq> CHR ''-'' \<and> x \<noteq> CHR ''+''" by (auto simp: c_isspace_def)
    have "\<not> c_isspace CHR ''-''" "\<not> c_isspace CHR ''+''" by code_simp+
    with x ds p have "?t = sg @ ds" by (auto simp: dropWhile_append2)
    with x ds p(3) have "?u = ds" by (auto simp: split_sign_def)
    with d ds show ?thesis unfolding st by (auto simp: digit_10 dropWhile_eq_Nil_conv)
  qed
qed

text \<open>C37.
  Which parameters the option \<open>--dns_port\<close> accepts: decimal numbers, and the empty string,
  which sets the port to 0, since the check for it looks at the option's name instead of
  the parameter. Everything else ends the program with a message. A number below
  \<open>2 ^ 63\<close> sets the port to its remainder modulo \<open>2 ^ 32\<close>; there is no other check of its size.
\<close>

theorem dns_port_parameters:
  "((\<exists>port. main_option K pt prog o1 ''--dns_port'' (p # rest) = Next (o1\<lparr>dns_port := port\<rparr>) True) \<longleftrightarrow> p = [] \<or> numeral_text p) \<and>
   (p \<noteq> [] \<and> \<not> numeral_text p \<longrightarrow> main_option K pt prog o1 ''--dns_port'' (p # rest) =
      Quit EXIT_FAILURE (''Invalid parameter for --dns_port: '' @ p @ newline @ usage prog)) \<and>
   main_option K pt prog o1 ''--dns_port'' ([] # rest) = Next (o1\<lparr>dns_port := 0\<rparr>) True \<and>
   (n < 2 ^ 63 \<longrightarrow> main_option K pt prog o1 ''--dns_port'' (show_nat n # rest) = Next (o1\<lparr>dns_port := of_nat (n mod 2 ^ 32)\<rparr>) True)"
proof -
  let ?v = "\<lambda>q. fst (strtol 10 q)" and ?e = "\<lambda>q. snd (strtol 10 q)"
  have run: "main_option K pt prog o1 ''--dns_port'' (q # rest) =
      (if ?e q = [] then Next (o1\<lparr>dns_port := word_of_int (?v q)\<rparr>) True
       else Quit EXIT_FAILURE (''Invalid parameter for --dns_port: '' @ q @ newline @ usage prog))" for q
    by (simp add: main_option_def main_checkparam_def stepping_def dns_port_option_def show_help_def split: prod.split)
  have "?v [] = 0" by code_simp
  moreover have "?v (show_nat n) = int n \<and> ?e (show_nat n) = []" if "n < 2 ^ 63"
    using strtol_show_nat [OF that] by simp
  moreover have "(of_nat (n mod 2 ^ 32) :: u32) = of_nat n"
    by (simp add: word_unat_eq_iff unsigned_of_nat take_bit_eq_mod)
  ultimately show ?thesis unfolding run strtol_stops by (auto simp: strtol_stops)
qed

theorem dns_port_parameters_witness:
  "main_option consts_lab pton_lab ''mobile'' (default_options consts_lab) ''--dns_port'' [show_nat 4294967349] =
     Next (default_options consts_lab\<lparr>dns_port := 53\<rparr>) True \<and>
   main_option consts_lab pton_lab ''mobile'' (default_options consts_lab) ''--dns_port'' [''53x''] =
     Quit EXIT_FAILURE (''Invalid parameter for --dns_port: 53x'' @ newline @ usage ''mobile'')"
proof -
  have "snd (strtol 10 ''53x'') \<noteq> []" by code_simp
  then have "\<not> numeral_text ''53x''" by (simp add: strtol_stops)
  then show ?thesis
    using dns_port_parameters [of consts_lab pton_lab "''mobile''" "default_options consts_lab" "''53x''" "[]" 4294967349]
    by simp
qed

end
