(* ===== verification/Main_Loop.thy ===== *)
theory Main_Loop
  imports Mobile_Host Options
begin

text \<open>
  The rest of \<open>main\<close>, \<open>source/main.c\<close> lines 426 to 586: the configuration file, the
  program's data, the connection to the emulator, the wait for the clock, the main loop
  and the shutdown. The two loops may run for ever, so they take fuel, the number of rounds,
  and return \<open>None\<close> when it runs out; the flag that the signal handler sets is read from
  the environment in every round.
\<close>

section \<open>Operations\<close>

text \<open>\<open>sockets[]\<close>: the link, then every socket in use.\<close>

definition wait_list :: "mobile_consts \<Rightarrow> int \<Rightarrow> int list \<Rightarrow> int list" where
  "wait_list K bgb_sock socks =
     bgb_sock # filter (\<lambda>fd. fd \<noteq> INVALID_SOCKET) (take (MOBILE_MAX_CONNECTIONS K) socks)"

text \<open>\<open>while (!mobile->bgb_clock_init) if (!bgb_loop(&bgb_state)) goto error;\<close> (\<open>False\<close> is the error).\<close>

fun wait_clock ::
    "os_env \<Rightarrow> nat \<Rightarrow> ('l, 'a) mobile_user_scheme bgb_state \<Rightarrow>
     (('l, 'a) mobile_user_scheme, (bool \<times> ('l, 'a) mobile_user_scheme bgb_state) option cres) state" where
  "wait_clock E 0 bst = ret_ok None"
| "wait_clock E (Suc n) bst = do {
     i \<leftarrow> gets bgb_clock_init;
     if i then ret_ok (Some (True, bst))
     else andthen (bgb_loop E bst) (\<lambda>(ok, bst).
       if \<not> ok then ret_ok (Some (False, bst)) else wait_clock E n bst)
   }"

text \<open>The body of the main loop; \<open>None\<close> is \<open>break\<close>.\<close>

definition main_round ::
    "os_env \<Rightarrow> mobile_consts \<Rightarrow> 'l mobile_lib \<Rightarrow> int \<Rightarrow> ('l, 'a) mobile_user_scheme bgb_state \<Rightarrow>
     (('l, 'a) mobile_user_scheme, ('l, 'a) mobile_user_scheme bgb_state option cres) state" where
  "main_round E K L bgb_sock bst =
     andthen (bgb_loop E bst) (\<lambda>(ok, bst).
       if \<not> ok then ret_ok None
       else andthen (mobile_handle_loop E K L) (\<lambda>ok.
         if \<not> ok then ret_ok None
         else do {
           socks \<leftarrow> gets sockets;
           _ \<leftarrow> socket_wait E (wait_list K bgb_sock socks) 100;
           ret_ok (Some bst)
         }))"

fun main_loop ::
    "os_env \<Rightarrow> mobile_consts \<Rightarrow> 'l mobile_lib \<Rightarrow> int \<Rightarrow> nat \<Rightarrow> ('l, 'a) mobile_user_scheme bgb_state \<Rightarrow>
     (('l, 'a) mobile_user_scheme, unit option cres) state" where
  "main_loop E K L bgb_sock 0 bst = ret_ok None"
| "main_loop E K L bgb_sock (Suc n) bst = do {
     trig \<leftarrow> sys E Sys_signal_flag;
     if ret trig \<noteq> 0 then ret_ok (Some ())
     else andthen (main_round E K L bgb_sock bst) (\<lambda>r. case r of
         None \<Rightarrow> ret_ok (Some ())
       | Some bst \<Rightarrow> main_loop E K L bgb_sock n bst)
   }"

definition main_shutdown ::
    "os_env \<Rightarrow> mobile_consts \<Rightarrow> 'l mobile_lib \<Rightarrow> int \<Rightarrow> (('l, 'a) mobile_user_scheme, int cres) state" where
  "main_shutdown E K L bgb_sock = andthen (call_lib E K (mobile_stop L)) (\<lambda>_. do {
     socket_impl_stop E (MOBILE_MAX_CONNECTIONS K);
     _ \<leftarrow> socket_close E bgb_sock;
     ret_ok EXIT_SUCCESS
   })"

subsection \<open>Setting up\<close>

text \<open>
  The file system, as far as \<open>fopen\<close> is concerned: the file opened with mode \<open>r+b\<close>, and
  the one created with mode \<open>w+b\<close> or the error number of the failure.
\<close>

record file_system =
  fopen_existing :: "string \<Rightarrow> cfile option"
  fopen_create :: "string \<Rightarrow> int + cfile"

definition open_config :: "file_system \<Rightarrow> string \<Rightarrow> int + cfile" where
  "open_config F fname =
     (case fopen_existing F fname of Some f \<Rightarrow> Inr f | None \<Rightarrow> fopen_create F fname)"

fun pad_loop :: "nat \<Rightarrow> cfile \<Rightarrow> cfile" where
  "pad_loop 0 f = f"
| "pad_loop (Suc n) f = pad_loop n (snd (fwrite [0] f))"

definition pad_config :: "mobile_consts \<Rightarrow> cfile \<Rightarrow> cfile" where
  "pad_config K f = (let f = fseek_end f in fseek_set 0 (pad_loop (nat (MOBILE_CONFIG_SIZE K - int (fpos f))) f))"

text \<open>
  The initialisation of the struct that \<open>malloc\<close> has returned (its old contents are the
  fields' values before), and of the adapter. The result of \<open>mobile_new\<close> is not tested: the
  functions that register the callbacks then write through a null pointer.
\<close>

definition init_user ::
    "mobile_consts \<Rightarrow> 'l mobile_lib \<Rightarrow> cfile \<Rightarrow> (('l, 'a) mobile_user_scheme, unit cres) state" where
  "init_user K L f = do {
     modify (\<lambda>s. s\<lparr>action := MOBILE_ACTION_NONE K, config := f, reset := False, bgb_clock := 0, bgb_clock_init := False,
       bgb_clock_latch := fold (\<lambda>i xs. xs[i := 0]) [0..<MOBILE_MAX_TIMERS K] (bgb_clock_latch s),
       number_user := (number_user s)[0 := CHR 0x00], number_peer := (number_peer s)[0 := CHR 0x00]\<rparr>);
     socket_impl_init (MOBILE_MAX_CONNECTIONS K);
     case mobile_new L of
       None \<Rightarrow> abort Null_dereference
     | Some l \<Rightarrow> do { modify (\<lambda>s. s\<lparr>adapter := l\<rparr>); ret_ok () }
   }"

definition main_config ::
    "os_env \<Rightarrow> mobile_consts \<Rightarrow> 'l mobile_lib \<Rightarrow> options \<Rightarrow> (('l, 'a) mobile_user_scheme, unit cres) state" where
  "main_config E K L o1 =
     andthen (call_lib E K (mobile_config_load L)) (\<lambda>_.
     andthen (call_lib E K (mobile_config_set_device L (device o1) (device_unmetered o1))) (\<lambda>_.
     andthen (call_lib E K (mobile_config_set_dns L (dns1 o1) MOBILE_DNS1)) (\<lambda>_.
     andthen (call_lib E K (mobile_config_set_dns L (dns2 o1) MOBILE_DNS2)) (\<lambda>_.
     andthen (call_lib E K (mobile_config_set_p2p_port L (p2p_port o1))) (\<lambda>_.
     andthen (call_lib E K (mobile_config_set_relay L (relay o1))) (\<lambda>_.
     andthen (if relay_token_update o1 then call_lib E K (mobile_config_set_relay_token L (relay_token_ptr o1))
              else ret_ok ()) (\<lambda>_.
     call_lib E K (mobile_config_save L))))))))"

text \<open>
  From the connected link to the end of the program; \<open>None\<close> when the fuel runs out. First the
  part after the wait for the clock, which has failed or given the state of the link.
\<close>

definition main_after_wait ::
    "os_env \<Rightarrow> mobile_consts \<Rightarrow> 'l mobile_lib \<Rightarrow> int \<Rightarrow> nat \<Rightarrow> (bool \<times> ('l, 'a) mobile_user_scheme bgb_state) option \<Rightarrow>
     (('l, 'a) mobile_user_scheme, int option cres) state" where
  "main_after_wait E K L bgb_sock fuel r = (case r of
       None \<Rightarrow> ret_ok None
     | Some (ok, bst) \<Rightarrow>
         if \<not> ok then ret_ok (Some EXIT_FAILURE)
         else andthen (call_lib E K (mobile_start L)) (\<lambda>_.
           andthen (main_loop E K L bgb_sock fuel (bst\<lparr>callback_timestamp := Some bgb_loop_timestamp\<rparr>)) (\<lambda>r. case r of
             None \<Rightarrow> ret_ok None
           | Some _ \<Rightarrow> andthen (main_shutdown E K L bgb_sock) (\<lambda>rc. ret_ok (Some rc)))))"

definition main_serve ::
    "os_env \<Rightarrow> mobile_consts \<Rightarrow> 'l mobile_lib \<Rightarrow> int \<Rightarrow> nat \<Rightarrow> nat \<Rightarrow> (('l, 'a) mobile_user_scheme, int option cres) state" where
  "main_serve E K L bgb_sock fuel_wait fuel = do {
     (ok, bst) \<leftarrow> bgb_init E bgb_sock (MOBILE_SERIAL_IDLE_BYTE K) (Some (bgb_loop_transfer E K L)) (Some bgb_loop_timestamp);
     if \<not> ok then ret_ok (Some EXIT_FAILURE)
     else andthen (wait_clock E fuel_wait (bst\<lparr>callback_timestamp := Some bgb_loop_timestamp_init\<rparr>))
       (main_after_wait E K L bgb_sock fuel)
   }"

definition could_not_connect :: "options \<Rightarrow> string" where
  "could_not_connect o1 = ''Could not connect ('' @ opt_host o1 @ '':'' @ opt_port o1 @ ''): ''"

definition main_connect ::
    "os_env \<Rightarrow> mobile_consts \<Rightarrow> 'l mobile_lib \<Rightarrow> options \<Rightarrow> nat \<Rightarrow> nat \<Rightarrow> (('l, 'a) mobile_user_scheme, int option cres) state" where
  "main_connect E K L o1 fuel_wait fuel = do {
     bgb_sock \<leftarrow> socket_connect E (opt_host o1) (opt_port o1);
     if bgb_sock = INVALID_SOCKET then do {
       eprint (could_not_connect o1);
       socket_perror E None;
       ret_ok (Some EXIT_FAILURE)
     } else do {
       r \<leftarrow> sys E (Sys_setsockopt bgb_sock TCP_NODELAY 1);
       if ret r = SOCKET_ERROR then do {
         socket_perror E (Some ''setsockopt'');
         ret_ok (Some EXIT_FAILURE)
       } else do {
         r \<leftarrow> sys E Sys_sigaction;
         if ret r = - 1 then do {
           perror E ''sigaction'';
           ret_ok (Some EXIT_FAILURE)
         } else andthen update_title (\<lambda>_. main_serve E K L bgb_sock fuel_wait fuel)
       }
     }
   }"

text \<open>
  \<open>main\<close> with the arguments after \<open>argv[0]\<close>. \<open>malloc_ok\<close>: the allocation succeeds
  (otherwise the error number is \<open>ENOMEM\<close>). The result is the exit status. On the error
  paths the process ends with its sockets open; the system closes them.
\<close>

definition main ::
    "os_env \<Rightarrow> mobile_consts \<Rightarrow> 'l mobile_lib \<Rightarrow> file_system \<Rightarrow> (string \<Rightarrow> pton) \<Rightarrow> bool \<Rightarrow> nat \<Rightarrow> nat \<Rightarrow>
     string \<Rightarrow> string list \<Rightarrow> (('l, 'a) mobile_user_scheme, int option cres) state" where
  "main E K L F inet_pton malloc_ok fuel_wait fuel program_name args =
     (case main_options K inet_pton program_name args of
        Exit code msg \<Rightarrow> do { eprint msg; ret_ok (Some code) }
      | Go o1 \<Rightarrow>
          (case open_config F (fname_config o1) of
             Inl e \<Rightarrow> do { socket_seterror e; perror E ''fopen''; ret_ok (Some EXIT_FAILURE) }
           | Inr f \<Rightarrow>
               if \<not> malloc_ok then do { socket_seterror 12; perror E ''malloc''; ret_ok (Some EXIT_FAILURE) }
               else andthen (init_user K L (pad_config K f)) (\<lambda>_.
                 andthen (main_config E K L o1) (\<lambda>_. main_connect E K L o1 fuel_wait fuel))))"

section \<open>The invariant and the link\<close>

lemma serving_observer_at:
  assumes "observer F m" and "F \<subseteq> B \<union> slots (sockets s)" and "serving E exact K B I v s" and "run_state m s = (a, s')"
  shows "serving E exact K B I v s'"
proof -
  from assms(3) obtain C where h: "title_fits K" "user_ok K s" "flags s = v" "I C (adapter s)"
    and t: "table E exact (MOBILE_MAX_CONNECTIONS K) B (sock_os.more s) C s"
    by (auto simp: serving_def host_def)
  have more: "os.more s' = os.more s" using observerD [OF assms(1,4)] by blast
  from t obtain L xs where f: "fresh_fds E" "fds L xs (sock_os.more s) s" "table_ok (MOBILE_MAX_CONNECTIONS K) B L xs"
    "open_conns xs = C" "exact \<longrightarrow> fcntl_ok E \<and> L = B \<union> slots xs"
    by (auto simp: table_def)
  then have "F \<subseteq> L" using assms(2) by (auto simp: table_ok_def fds_def)
  from tripleD [OF triple_observer [OF assms(1) this] f(2) assms(4)]
  have "table E exact (MOBILE_MAX_CONNECTIONS K) B (sock_os.more s) C s'"
    by (rule tableI [OF f(1) _ f(3,4)]) (use f(5) in blast)
  moreover have "adapter s' = adapter s" using more by (cases s; cases s') simp
  ultimately show ?thesis
    using h more_cong [OF more] user_ok_more [of s' s] flags_more [of s' s]
    by (auto simp: serving_def host_def)
qed

lemma resting_observer_at:
  assumes "observer F m" and "F \<subseteq> B \<union> slots (sockets s)" and "resting E exact K B I r t i s" and "run_state m s = (a, s')"
  shows "resting E exact K B I r t i s'"
proof -
  obtain x where "x AND MOBILE_ACTION_RESET_SERIAL K = 0" and s: "serving E exact K B I (r, x, t, i) s"
    using assms(3) by (auto simp: resting_def)
  with serving_observer_at [OF assms(1,2) s assms(4)] show ?thesis by (auto simp: resting_def)
qed

lemma resting_observer:
  assumes "observer F m" and "F \<subseteq> B"
  shows "triple (resting E exact K B I r t i) m (\<lambda>_. resting E exact K B I r t i)"
  by (rule tripleI, rule resting_observer_at [OF assms(1)]) (use assms(2) in auto)

lemma resting_cong:
  assumes "resting E exact K B I r t i s" and "trace s' = trace s" and "sockets s' = sockets s"
    and "user_ok K s \<Longrightarrow> user_ok K s'" and "adapter s' = adapter s" and "flags s' = (r', action s, t', i')"
  shows "resting E exact K B I r' t' i' s'"
  using resting_serving [OF assms(1)] serving_cong [OF _ assms(2,3) _ assms(5,6)] assms(4) serving_user_ok
  unfolding resting_def by blast

lemma resting_flags: "resting E exact K B I r t i s \<Longrightarrow> reset s = r \<and> bgb_clock s = t \<and> bgb_clock_init s = i"
  by (auto simp: resting_def flags_def dest: serving_user_ok)

lemma resting_updates:
  assumes "resting E exact K B I r t i s"
  shows "resting E exact K B I r t i (s\<lparr>stderr := x\<rparr>)"
    and "resting E exact K B I r t' True (s\<lparr>bgb_clock := t', bgb_clock_init := True\<rparr>)"
    and "resting E exact K B I r' t' i (s\<lparr>bgb_clock := t', reset := r', stderr := x\<rparr>)"
  using resting_flags [OF assms] by (auto intro!: resting_cong [OF assms] simp: user_ok_def flags_def)

lemma resting_timestamp:
  assumes "resting E exact K B I r t i s"
  shows "\<exists>r'. resting E exact K B I r' cur i (exec (bgb_loop_timestamp cur) s)"
    and "resting E exact K B I r cur True (exec (bgb_loop_timestamp_init cur) s)"
  unfolding exec_def run_timestamp Let_def bgb_loop_timestamp_init_def run_modify snd_conv
  by (rule exI, rule resting_updates(3) [OF assms]) (rule resting_updates(2) [OF assms])

lemma step_resting:
  assumes "\<And>v. library_step E exact K B I v m"
  shows "triple (resting E exact K B I r t i) m (\<lambda>a s. returns a \<and> resting E exact K B I r t i s)"
  using call_lib_resting [OF assms [unfolded library_step_def], where P = "\<lambda>_. True"] by simp

lemma transfer_resting:
  assumes "disciplined K L I"
  shows "triple (resting E exact K B I r t i) (bgb_loop_transfer E K L c)
    (\<lambda>a s. returns a \<and> resting E exact K B I r t i s)"
  unfolding bgb_loop_transfer_def by (rule step_resting [OF entry_points(5) [OF assms]])

text \<open>The switch changes the prepared byte only.\<close>

lemma switch_resting:
  assumes "disciplined K L I" and "callback_transfer bst = Some (bgb_loop_transfer E K L)" and "bgb_socket bst \<in> B"
  shows "triple (resting E exact K B I r t i) (bgb_loop_switch E bst p)
    (\<lambda>a s. resting E exact K B I r t i s \<and> (a = Ret None \<or> (\<exists>b cur. a = Ret (Some (bst\<lparr>bgb_byte := b\<rparr>, cur)))))"
    (is "triple ?P _ ?Q")
proof -
  have send: "triple ?P (bgb_send E (bgb_socket bst) q) (\<lambda>_. ?P)" for q
    using assms(3) by (intro resting_observer [OF observer_bgb_send]) simp
  have warn: "triple ?P (eprint msg) (\<lambda>_. ?P)" for msg
    by (rule resting_observer [OF observer_eprint, of "{}"]) simp
  have same: "\<exists>b. bst = bst\<lparr>bgb_byte := b\<rparr>" by (rule exI [of _ "bgb_byte bst"]) simp
  have ret: "triple ?P (ret_ok (Some (bst, cur))) ?Q" "triple ?P (ret_ok None) ?Q" for cur
    using same by (auto simp: triple_def)
  have move: "triple ?P (andthen (bgb_loop_transfer E K L c) (\<lambda>b. ret_ok (Some (bst\<lparr>bgb_byte := b\<rparr>, cur)))) ?Q" for c cur
    by (rule triple_andthen [OF transfer_resting [OF assms(1)]]) (auto simp: triple_def)
  show ?thesis
    unfolding bgb_loop_switch_def Let_def assms(2) option.case
    by (intro triple_if ret triple_bind [OF send] triple_bind [OF warn] move)
qed

lemma bgb_loop_resting:
  assumes "disciplined K L I" and "callback_transfer bst = Some (bgb_loop_transfer E K L)" and "bgb_socket bst \<in> B"
    and clock: "\<And>b cur. triple (resting E exact K B I r t i) (bgb_loop_clock (bst\<lparr>bgb_byte := b\<rparr>) cur) Q"
  shows "triple (resting E exact K B I r t i) (bgb_loop E bst)
    (\<lambda>a s. \<exists>ok bst'. a = Ret (ok, bst') \<and> (bst' = bst \<and> resting E exact K B I r t i s \<or> ok \<and> Q bst' s))"
    (is "triple ?P _ ?R")
proof -
  have obs: "triple ?P (socket_hasdata E (bgb_socket bst)) (\<lambda>_. ?P)" "triple ?P (bgb_recv E (bgb_socket bst)) (\<lambda>_. ?P)"
    using assms(3) by (auto intro!: resting_observer observer_hasdata observer_bgb_recv)
  have stay: "triple ?P (ret_ok (ok, bst)) ?R" for ok by (auto simp: triple_def)
  have tick: "triple ?P (do { bst \<leftarrow> bgb_loop_clock (bst\<lparr>bgb_byte := b\<rparr>) cur; ret_ok (True, bst) }) ?R" for b cur
    by (rule triple_bind [OF clock]) (auto simp: triple_def)
  have "triple ?P (andthen (bgb_loop_switch E bst p) (\<lambda>res. case res of None \<Rightarrow> ret_ok (False, bst)
      | Some (bst, cur) \<Rightarrow> do { bst \<leftarrow> bgb_loop_clock bst cur; ret_ok (True, bst) })) ?R" for p
  proof (rule triple_andthen [OF switch_resting [OF assms(1-3)]], goal_cases)
    case (1 res)
    show ?case
    proof (cases "\<exists>b cur. res = Some (bst\<lparr>bgb_byte := b\<rparr>, cur)")
      case True
      then obtain b cur where res: "res = Some (bst\<lparr>bgb_byte := b\<rparr>, cur)" by blast
      show ?thesis unfolding res option.case prod.case by (rule triple_conseq [OF tick [of b cur]]) auto
    next
      case False
      then show ?thesis using stay [of False] by (cases res) (auto simp: triple_def)
    qed
  qed auto
  then show ?thesis
    unfolding bgb_loop_def
    by (intro triple_bind [OF obs(1)] triple_if triple_bind [OF obs(2)] stay) (auto simp: stay split: option.split)
qed

section \<open>The loops\<close>

definition link_up ::
    "os_env \<Rightarrow> mobile_consts \<Rightarrow> 'l mobile_lib \<Rightarrow> int \<Rightarrow> (u32 \<Rightarrow> (('l, 'a) mobile_user_scheme, unit) state) \<Rightarrow>
     ('l, 'a) mobile_user_scheme bgb_state \<Rightarrow> bool" where
  "link_up E K L fd clk bst \<longleftrightarrow> bgb_socket bst = fd \<and>
     callback_transfer bst = Some (bgb_loop_transfer E K L) \<and> callback_timestamp bst = Some clk"

text \<open>
  While the clock is waited for: the host's clock is set as soon as the link has a time
  stamp. In the main loop: the host's clock shows the link's last time stamp.
\<close>

definition starting ::
    "os_env \<Rightarrow> bool \<Rightarrow> mobile_consts \<Rightarrow> 'l mobile_lib \<Rightarrow> (nat set \<Rightarrow> 'l \<Rightarrow> bool) \<Rightarrow> int \<Rightarrow>
     ('l, 'a) mobile_user_scheme bgb_state \<Rightarrow> ('l, 'a) mobile_user_scheme \<Rightarrow> bool" where
  "starting E exact K L I fd bst s \<longleftrightarrow> link_up E K L fd bgb_loop_timestamp_init bst \<and>
     (\<exists>t. resting E exact K {fd} I False t (timestamp_init bst) s \<and> (timestamp_init bst \<longrightarrow> t = timestamp_last bst))"

definition running ::
    "os_env \<Rightarrow> bool \<Rightarrow> mobile_consts \<Rightarrow> 'l mobile_lib \<Rightarrow> (nat set \<Rightarrow> 'l \<Rightarrow> bool) \<Rightarrow> int \<Rightarrow>
     ('l, 'a) mobile_user_scheme bgb_state \<Rightarrow> ('l, 'a) mobile_user_scheme \<Rightarrow> bool" where
  "running E exact K L I fd bst s \<longleftrightarrow> link_up E K L fd bgb_loop_timestamp bst \<and> timestamp_init bst \<and>
     (\<exists>r. resting E exact K {fd} I r (timestamp_last bst) True s)"

lemma link_up_simps [simp]:
  "link_up E K L fd clk (bst\<lparr>bgb_byte := b\<rparr>) = link_up E K L fd clk bst"
  "link_up E K L fd clk (bst\<lparr>timestamp_last := t\<rparr>) = link_up E K L fd clk bst"
  "link_up E K L fd clk (bst\<lparr>timestamp_last := t, timestamp_init := i\<rparr>) = link_up E K L fd clk bst"
  by (auto simp: link_up_def)

lemma clock_running:
  assumes "link_up E K L fd bgb_loop_timestamp bst" and "timestamp_init bst"
  shows "triple (resting E exact K {fd} I r (timestamp_last bst) True) (bgb_loop_clock bst cur) (running E exact K L I fd)"
proof (rule tripleI)
  fix s bst' s'
  assume s: "resting E exact K {fd} I r (timestamp_last bst) True s" and run: "run_state (bgb_loop_clock bst cur) s = (bst', s')"
  have "\<exists>r'. resting E exact K {fd} I r' (timestamp_last bst') True s'"
    using s run assms resting_updates(1) [OF s] resting_timestamp(1) [OF s, of cur]
    by (auto simp: run_loop_clock link_up_def split: if_splits)
  then show "running E exact K L I fd bst' s'"
    using run assms by (auto simp: running_def run_loop_clock link_up_def split: if_splits)
qed

lemma clock_starting:
  assumes "link_up E K L fd bgb_loop_timestamp_init bst" and "timestamp_init bst \<Longrightarrow> t = timestamp_last bst"
  shows "triple (resting E exact K {fd} I False t (timestamp_init bst)) (bgb_loop_clock bst cur) (starting E exact K L I fd)"
proof (rule tripleI)
  fix s bst' s'
  assume s: "resting E exact K {fd} I False t (timestamp_init bst) s" and run: "run_state (bgb_loop_clock bst cur) s = (bst', s')"
  have "timestamp_init bst' \<and> resting E exact K {fd} I False (timestamp_last bst') True s'"
    using s run assms resting_updates(1) [OF s] resting_timestamp(2) [OF s, of cur]
    by (auto simp: run_loop_clock link_up_def split: if_splits)
  then show "starting E exact K L I fd bst' s'"
    using run assms by (auto simp: starting_def run_loop_clock link_up_def split: if_splits)
qed

lemma bgb_loop_running:
  assumes "disciplined K L I"
  shows "triple (running E exact K L I fd bst) (bgb_loop E bst)
    (\<lambda>a s. \<exists>ok bst'. a = Ret (ok, bst') \<and> running E exact K L I fd bst' s)"
proof (rule tripleI)
  fix s a s'
  assume s: "running E exact K L I fd bst s" and run: "run_state (bgb_loop E bst) s = (a, s')"
  then obtain r where l: "link_up E K L fd bgb_loop_timestamp bst" "timestamp_init bst"
    and r: "resting E exact K {fd} I r (timestamp_last bst) True s"
    by (auto simp: running_def)
  have "triple (resting E exact K {fd} I r (timestamp_last bst) True) (bgb_loop_clock (bst\<lparr>bgb_byte := b\<rparr>) cur)
      (running E exact K L I fd)" for b cur
    using clock_running [of E K L fd "bst\<lparr>bgb_byte := b\<rparr>" exact I r cur] l by simp
  from tripleD [OF bgb_loop_resting [OF assms _ _ this] r run] l r
  show "\<exists>ok bst'. a = Ret (ok, bst') \<and> running E exact K L I fd bst' s'"
    by (auto simp: link_up_def running_def)
qed

lemma bgb_loop_starting:
  assumes "disciplined K L I"
  shows "triple (starting E exact K L I fd bst) (bgb_loop E bst)
    (\<lambda>a s. \<exists>ok bst'. a = Ret (ok, bst') \<and> starting E exact K L I fd bst' s)"
proof (rule tripleI)
  fix s a s'
  assume s: "starting E exact K L I fd bst s" and run: "run_state (bgb_loop E bst) s = (a, s')"
  then obtain t where l: "link_up E K L fd bgb_loop_timestamp_init bst" "timestamp_init bst \<Longrightarrow> t = timestamp_last bst"
    and r: "resting E exact K {fd} I False t (timestamp_init bst) s"
    by (auto simp: starting_def)
  have "triple (resting E exact K {fd} I False t (timestamp_init bst)) (bgb_loop_clock (bst\<lparr>bgb_byte := b\<rparr>) cur)
      (starting E exact K L I fd)" for b cur
    using clock_starting [of E K L fd "bst\<lparr>bgb_byte := b\<rparr>" t exact I cur] l by simp
  from tripleD [OF bgb_loop_resting [OF assms _ _ this] r run] l r
  show "\<exists>ok bst'. a = Ret (ok, bst') \<and> starting E exact K L I fd bst' s'"
    by (auto simp: link_up_def starting_def)
qed

lemma wait_list_slots: "set (wait_list K fd socks) \<subseteq> insert fd (slots socks)"
  by (auto simp: wait_list_def slots_def open_conns_def in_set_conv_nth dest!: in_set_takeD)

lemma wait_resting:
  assumes "fd \<in> B"
  shows "triple (resting E exact K B I r t i)
    (do { socks \<leftarrow> gets sockets; _ \<leftarrow> socket_wait E (wait_list K fd socks) d; ret_ok x })
    (\<lambda>a s. a = Ret x \<and> resting E exact K B I r t i s)"
proof (rule tripleI)
  fix s a s'
  assume s: "resting E exact K B I r t i s"
    and run: "run_state (do { socks \<leftarrow> gets sockets; _ \<leftarrow> socket_wait E (wait_list K fd socks) d; ret_ok x }) s = (a, s')"
  obtain w s1 where w: "run_state (socket_wait E (wait_list K fd (sockets s)) d) s = (w, s1)" by fastforce
  have "set (wait_list K fd (sockets s)) \<subseteq> B \<union> slots (sockets s)" using wait_list_slots assms by fastforce
  from resting_observer_at [OF observer_wait this s w] run w
  show "a = Ret x \<and> resting E exact K B I r t i s'" by auto
qed

lemma handle_loop_running:
  assumes "disciplined K L I"
  shows "triple (running E exact K L I fd bst) (mobile_handle_loop E K L)
    (\<lambda>a s. a = Ret True \<and> running E exact K L I fd bst s)"
proof (rule tripleI)
  fix s a s'
  assume s: "running E exact K L I fd bst s" and run: "run_state (mobile_handle_loop E K L) s = (a, s')"
  then obtain r where r: "resting E exact K {fd} I r (timestamp_last bst) True s" by (auto simp: running_def)
  from tripleD [OF mobile_handle_loop_resting [OF assms] r run] handle_loop_result [OF run] s
  show "a = Ret True \<and> running E exact K L I fd bst s'" by (auto simp: running_def)
qed

lemma wait_running:
  "triple (running E exact K L I fd bst)
    (do { socks \<leftarrow> gets sockets; _ \<leftarrow> socket_wait E (wait_list K fd socks) d; ret_ok x })
    (\<lambda>a s. a = Ret x \<and> running E exact K L I fd bst s)"
proof (rule tripleI)
  fix s a s'
  assume s: "running E exact K L I fd bst s"
    and run: "run_state (do { socks \<leftarrow> gets sockets; _ \<leftarrow> socket_wait E (wait_list K fd socks) d; ret_ok x }) s = (a, s')"
  then obtain r where r: "resting E exact K {fd} I r (timestamp_last bst) True s" by (auto simp: running_def)
  from tripleD [OF wait_resting [of fd "{fd}"] r run] s
  show "a = Ret x \<and> running E exact K L I fd bst s'" by (auto simp: running_def)
qed

lemma main_round_running:
  assumes "disciplined K L I"
  shows "triple (running E exact K L I fd bst) (main_round E K L fd bst)
    (\<lambda>a s. \<exists>o1 bst'. a = Ret o1 \<and> running E exact K L I fd bst' s \<and> (\<forall>b. o1 = Some b \<longrightarrow> b = bst'))"
    (is "triple _ _ ?Q")
  unfolding main_round_def
proof (rule triple_andthen [OF bgb_loop_running [OF assms]], goal_cases)
  case (1 x)
  obtain ok bst' where x: "x = (ok, bst')" by (cases x)
  have "triple (running E exact K L I fd bst') (andthen (mobile_handle_loop E K L) (\<lambda>ok.
      if \<not> ok then ret_ok None
      else do { socks \<leftarrow> gets sockets; _ \<leftarrow> socket_wait E (wait_list K fd socks) 100; ret_ok (Some bst') })) ?Q"
  proof (rule triple_andthen [OF handle_loop_running [OF assms]], goal_cases)
    case (1 y)
    show ?case
    proof (cases y)
      case True
      then show ?thesis by simp (rule triple_conseq [OF wait_running], auto)
    next
      case False
      then show ?thesis by (simp add: triple_def)
    qed
  qed auto
  moreover have "triple (running E exact K L I fd bst') (ret_ok None) ?Q" by (auto simp: triple_def)
  ultimately show ?case
    unfolding x prod.case by (intro triple_if) (auto elim: triple_conseq)
qed auto

lemma signal_running:
  "triple (running E exact K L I fd bst) (sys E Sys_signal_flag) (\<lambda>_. running E exact K L I fd bst)"
proof (rule tripleI)
  fix s a s'
  assume s: "running E exact K L I fd bst s" and run: "run_state (sys E Sys_signal_flag) s = (a, s')"
  then obtain r where r: "resting E exact K {fd} I r (timestamp_last bst) True s" by (auto simp: running_def)
  have "observer {} (sys E Sys_signal_flag)" by (intro observer_intros) simp_all
  from tripleD [OF resting_observer [OF this] r run] s show "running E exact K L I fd bst s'"
    by (auto simp: running_def)
qed

lemma main_loop_running:
  assumes "disciplined K L I"
  shows "triple (running E exact K L I fd bst) (main_loop E K L fd n bst)
    (\<lambda>a s. \<exists>o1 bst'. a = Ret o1 \<and> running E exact K L I fd bst' s)" (is "triple _ _ ?Q")
proof (induction n arbitrary: bst)
  case 0
  show ?case by (auto simp: triple_def)
next
  case (Suc n)
  have "triple (running E exact K L I fd bst) (andthen (main_round E K L fd bst) (\<lambda>r. case r of
      None \<Rightarrow> ret_ok (Some ()) | Some bst \<Rightarrow> main_loop E K L fd n bst)) ?Q"
  proof (rule triple_andthen [OF main_round_running [OF assms]], goal_cases)
    case (1 r)
    show ?case
    proof (cases r)
      case None
      then show ?thesis by (auto simp: triple_def)
    next
      case (Some b)
      then show ?thesis by simp (rule triple_conseq [OF Suc.IH [of b]], auto)
    qed
  qed auto
  then show ?case
    by (simp only: main_loop.simps) (intro triple_bind [OF signal_running] triple_if; auto simp: triple_def)
qed

lemma wait_clock_starting:
  assumes "disciplined K L I"
  shows "triple (starting E exact K L I fd bst) (wait_clock E n bst)
    (\<lambda>a s. \<exists>o1 bst'. a = Ret o1 \<and> starting E exact K L I fd bst' s \<and>
       (\<forall>ok b. o1 = Some (ok, b) \<longrightarrow> b = bst' \<and> (ok \<longrightarrow> timestamp_init b)))" (is "triple _ _ ?Q")
proof (induction n arbitrary: bst)
  case 0
  show ?case by (auto simp: triple_def)
next
  case (Suc n)
  have "triple (starting E exact K L I fd bst) (andthen (bgb_loop E bst) (\<lambda>(ok, bst).
      if \<not> ok then ret_ok (Some (False, bst)) else wait_clock E n bst)) ?Q"
  proof (rule triple_andthen [OF bgb_loop_starting [OF assms]], goal_cases)
    case (1 x)
    obtain ok bst' where x: "x = (ok, bst')" by (cases x)
    show ?case
    proof (cases ok)
      case True
      then show ?thesis unfolding x by simp (rule triple_conseq [OF Suc.IH [of bst']], auto)
    next
      case False
      then show ?thesis unfolding x by (auto simp: triple_def)
    qed
  qed auto
  then show ?case
    unfolding wait_clock.simps
  proof (intro triple_gets_ex triple_if, goal_cases)
    case (1 i)
    then show ?case by (auto simp: triple_def starting_def dest: resting_flags)
  next
    case (2 i)
    from 2(1) show ?case by (rule triple_conseq) auto
  qed
qed

section \<open>The shutdown\<close>

lemma serving_trace_ok: "serving E exact K B I v s \<Longrightarrow> trace_ok (trace s)"
  by (auto simp: serving_def host_def table_def fds_def)

lemma main_shutdown_ends:
  assumes "disciplined K L I"
  shows "triple (resting E exact K {fd} I r t i) (main_shutdown E K L fd)
    (\<lambda>a s. a = Ret EXIT_SUCCESS \<and> trace_ok (trace s) \<and> (exact \<longrightarrow> live (trace s) = {}))"
  unfolding main_shutdown_def
proof (rule triple_andthen [OF step_resting [OF entry_points(2) [OF assms]]], goal_cases)
  case (1 u)
  show ?case
  proof (rule tripleI)
    fix s a s'
    assume "returns (Ret u) \<and> resting E exact K {fd} I r t i s"
      and run: "run_state (do { socket_impl_stop E (MOBILE_MAX_CONNECTIONS K); _ \<leftarrow> socket_close E fd; ret_ok EXIT_SUCCESS }) s = (a, s')"
    then obtain L' xs where f: "fds L' xs (sock_os.more s) s" and t: "table_ok (MOBILE_MAX_CONNECTIONS K) {fd} L' xs"
      and e: "exact \<longrightarrow> L' = {fd} \<union> slots xs"
      by (auto simp: resting_def serving_def host_def table_def)
    have fd: "fd \<in> L' - slots xs" using t by (auto simp: table_ok_def)
    have "triple (fds L' xs (sock_os.more s)) (do { socket_impl_stop E (MOBILE_MAX_CONNECTIONS K); _ \<leftarrow> socket_close E fd; ret_ok EXIT_SUCCESS })
        (\<lambda>a s1. a = Ret EXIT_SUCCESS \<and> fds (L' - slots xs - {fd}) xs (sock_os.more s) s1)"
      by (rule triple_bind [OF stop_spec [OF t]], rule triple_bind [OF triple_close [OF fd]]) (simp add: triple_def)
    from tripleD [OF this f run] e
    show "a = Ret EXIT_SUCCESS \<and> trace_ok (trace s') \<and> (exact \<longrightarrow> live (trace s') = {})"
      by (auto simp: fds_def)
  qed
qed auto

end
