(* ===== verification/Main_Ends.thy ===== *)
theory Main_Ends
  imports Main_Loop
begin

text \<open>
  When the two loops of \<open>main\<close> end: the wait for the clock with the first packet of the emulator,
  or never; the main loop with the signal.
\<close>

section \<open>Counting calls\<close>

definition recv_count :: "trace \<Rightarrow> nat" where
  "recv_count tr = length (filter (\<lambda>(c, _). case c of Sys_recv _ _ \<Rightarrow> True | _ \<Rightarrow> False) tr)"

definition flag_count :: "trace \<Rightarrow> nat" where
  "flag_count tr = length (filter (\<lambda>(c, _). c = Sys_signal_flag) tr)"

text \<open>
  An emulator for the witnesses: it accepts the connection, answers the handshake and
  the status, sends one time stamp, and falls silent; the signal comes in the second
  round of the main loop.
\<close>

definition session_lab :: os_env where
  "session_lab = lab_env (\<lambda>tr c. case c of
       Sys_getaddrinfo _ _ _ _ _ \<Rightarrow> ok_ret\<lparr>rinfo := [\<lparr>ai_family = AF_INET, ai_socktype = SOCK_STREAM,
         ai_protocol = 6, ai_addr = Sockaddr_in 0 [127, 0, 0, 1]\<rparr>]\<rparr>
     | Sys_send _ _ \<Rightarrow> ok_ret\<lparr>ret := 8\<rparr>
     | Sys_recv _ _ \<Rightarrow> ok_ret\<lparr>ret := 8, rdata := (if recv_count tr = 0 then [1, 1, 4, 0, 0, 0, 0, 0]
         else if recv_count tr = 1 then [108, 1, 0, 0, 0, 0, 0, 0] else [106, 1, 0, 0, 7, 0, 0, 0])\<rparr>
     | Sys_poll _ _ \<Rightarrow> ok_ret\<lparr>ret := 1\<rparr>
     | Sys_signal_flag \<Rightarrow> ok_ret\<lparr>ret := (if flag_count tr = 0 then 0 else 1)\<rparr>
     | _ \<Rightarrow> ok_ret)"

section \<open>Waiting for the clock\<close>

text \<open>A connected emulator that sends nothing: polling for data never finds any.\<close>

definition silent :: "os_env \<Rightarrow> bool" where
  "silent E \<longleftrightarrow> (\<forall>tr fd. ret (reply E tr (Sys_poll [(fd, [POLLIN, POLLPRI])] 0)) = 0)"

lemma silent_round:
  assumes "silent E"
  shows "\<exists>s'. run_state (bgb_loop E bst) s = (Ret (True, bst), s') \<and> flag_count (trace s') = flag_count (trace s) \<and>
    bgb_clock_init s' = bgb_clock_init s"
proof -
  have "ret (reply E tr (Sys_poll [(fd, [POLLIN, POLLPRI])] 0)) = 0" for tr fd using assms by (simp add: silent_def)
  then show ?thesis
    by (simp add: bgb_loop_def socket_hasdata_def flag_count_def logged_def Let_def)
qed

text \<open>C38.
  While the program waits for the clock, a silent emulator keeps it busy for ever: the
  loop does not end after any number of rounds, and it never looks at the flag that the
  handler of \<open>SIGINT\<close> sets, so the signal, whose default action the handler has replaced, cannot end it.
\<close>

theorem wait_clock_ignores_signal:
  assumes "silent E" and "\<not> bgb_clock_init s"
  shows "result (wait_clock E n bst) s = Ret None \<and>
    flag_count (trace (exec (wait_clock E n bst) s)) = flag_count (trace s)"
  using assms(2)
proof (induction n arbitrary: s)
  case (Suc n)
  obtain s' where r: "run_state (bgb_loop E bst) s = (Ret (True, bst), s')" "flag_count (trace s') = flag_count (trace s)"
    "\<not> bgb_clock_init s'"
    using silent_round [OF assms(1), of bst s] Suc.prems by auto
  from Suc.IH [OF r(3)] r(1,2) Suc.prems show ?case
    by (simp add: result_def exec_def run_andthen)
qed (simp add: result_def exec_def)

theorem wait_clock_ignores_signal_witness:
  "result (wait_clock calm_lab 100 (link_user 0 False)) (user_lab\<lparr>bgb_clock_init := False\<rparr>) = Ret None"
proof -
  have "silent calm_lab" by (simp add: silent_def calm_lab_def lab_env_def ok_ret_def)
  from wait_clock_ignores_signal [OF this, of "user_lab\<lparr>bgb_clock_init := False\<rparr>"] show ?thesis by simp
qed

text \<open>C39.
  The wait ends with the first packet even when that packet has no time stamp (a joypad, status,
  slave-byte or disconnect packet): the clock then starts at 0, and the first time stamp that
  follows is taken for a reset of the emulator unless it happens to be near 0.
\<close>

theorem clock_starts_without_stamp:
  assumes "arrives E (bgb_socket bst) s p s1"
    and "cmd p \<in> {BGB_CMD_JOYPAD, BGB_CMD_SYNC2, BGB_CMD_STATUS, BGB_CMD_WANTDISCONNECT}"
    and "callback_timestamp bst = Some bgb_loop_timestamp_init" and "\<not> timestamp_init bst" and "timestamp_last bst = 0"
  shows "run_state (bgb_loop E bst) s =
      (Ret (True, bst\<lparr>timestamp_init := True\<rparr>), s1\<lparr>bgb_clock := 0, bgb_clock_init := True\<rparr>) \<and>
    (0x1000 < unat t mod 2 ^ 31 \<and> unat t mod 2 ^ 31 < 2 ^ 31 - 0x100 \<longrightarrow>
      reset (exec (bgb_loop_clock (bst\<lparr>timestamp_init := True, callback_timestamp := Some bgb_loop_timestamp\<rparr>) t)
        (s1\<lparr>bgb_clock := 0, bgb_clock_init := True\<rparr>)))"
proof -
  have "run_state (bgb_loop_switch E bst p) s1 = (Ret (Some (bst, 0)), s1)"
    using assms(2,5) by (auto simp: bgb_loop_switch_def Let_def)
  moreover have "bst\<lparr>timestamp_last := 0, timestamp_init := True\<rparr> = bst\<lparr>timestamp_init := True\<rparr>"
    using assms(5) by simp
  ultimately have "run_state (bgb_loop E bst) s =
      (Ret (True, bst\<lparr>timestamp_init := True\<rparr>), s1\<lparr>bgb_clock := 0, bgb_clock_init := True\<rparr>)"
    using run_loop_arrives [OF assms(1)] assms(3,4)
    by (simp add: run_loop_clock exec_def bgb_loop_timestamp_init_def)
  moreover have "(2 ^ 32 + unat t) mod 2 ^ 31 = unat t mod 2 ^ 31"
    using mod_mult_self1 [of "unat t" 2 "2 ^ 31"] by (simp add: add.commute)
  then have "reset (exec (bgb_loop_clock (bst\<lparr>timestamp_init := True, callback_timestamp := Some bgb_loop_timestamp\<rparr>) t)
      (s1\<lparr>bgb_clock := 0, bgb_clock_init := True\<rparr>))"
    if "0x1000 < unat t mod 2 ^ 31" "unat t mod 2 ^ 31 < 2 ^ 31 - 0x100"
    using that assms(5)
    by (auto simp: exec_def run_loop_clock went_back_iff_ahead run_timestamp Let_def)
  ultimately show ?thesis by blast
qed

definition status_lab :: os_env where
  "status_lab = lab_env (\<lambda>tr c. case c of
       Sys_recv _ _ \<Rightarrow> ok_ret\<lparr>ret := 8, rdata := [108, 1, 0, 0, 0, 0, 0, 0]\<rparr>
     | Sys_poll _ _ \<Rightarrow> ok_ret\<lparr>ret := 1\<rparr> | _ \<Rightarrow> ok_ret)"

theorem clock_starts_without_stamp_witness:
  "bgb_clock_init (exec (bgb_loop status_lab ((link_user 0 False)\<lparr>callback_timestamp := Some bgb_loop_timestamp_init\<rparr>)) user_lab) \<and>
   bgb_clock (exec (bgb_loop status_lab ((link_user 0 False)\<lparr>callback_timestamp := Some bgb_loop_timestamp_init\<rparr>)) user_lab) = 0"
proof -
  let ?bst = "(link_user 0 False)\<lparr>callback_timestamp := Some bgb_loop_timestamp_init\<rparr>"
  let ?s0 = "exec (socket_hasdata status_lab 5) user_lab"
  let ?p = "\<lparr>cmd = BGB_CMD_STATUS, b2 = 1, b3 = 0, b4 = 0, timestamp = 0\<rparr>"
  have "result (socket_hasdata status_lab 5) user_lab = 1" by code_simp
  moreover have "result (bgb_recv status_lab 5) ?s0 = Some ?p" by code_simp
  ultimately have a: "arrives status_lab (bgb_socket ?bst) user_lab ?p (exec (bgb_recv status_lab 5) ?s0)"
    by (auto simp: arrives_def run_state_pair link_user_def)
  from clock_starts_without_stamp [OF a, of 0] show ?thesis
    by (simp add: link_user_def exec_def)
qed

text \<open>
  The history from the moment the link is connected: \<open>since_link fd evs tr\<close> holds of a history
  \<open>tr\<close> that ends with the calls \<open>evs\<close> after the two calls \<open>main\<close> makes once on the connected
  descriptor. \<open>polled fd evs\<close> are the answers to the polls of that descriptor.
\<close>

definition since_link :: "int \<Rightarrow> trace \<Rightarrow> trace \<Rightarrow> bool" where
  "since_link fd evs tr \<longleftrightarrow> (\<exists>r1 r2 tr0. tr = evs @ (Sys_sigaction, r1) # (Sys_setsockopt fd TCP_NODELAY 1, r2) # tr0)"

definition link_poll :: "int \<Rightarrow> syscall" where
  "link_poll fd = Sys_poll [(fd, [POLLIN, POLLPRI])] 0"

definition polled :: "int \<Rightarrow> trace \<Rightarrow> int list" where
  "polled fd evs = map (\<lambda>e. ret (snd e)) (filter (\<lambda>e. fst e = link_poll fd) evs)"

text \<open>
  An emulator that speaks: when \<open>k\<close> polls of the link have found nothing (or failed), the
  next one finds something, be it a packet, an error, or the end of the stream. Nothing is
  said of other descriptors, nor of later polls.
\<close>

definition speaks :: "os_env \<Rightarrow> nat \<Rightarrow> bool" where
  "speaks E k \<longleftrightarrow> (\<forall>fd evs tr. since_link fd evs tr \<and> k \<le> length (polled fd evs) \<and> (\<forall>r \<in> set (polled fd evs). r \<le> 0) \<longrightarrow>
     0 < ret (reply E tr (link_poll fd)))"

text \<open>So far \<open>n\<close> polls of the link, all of them in vain.\<close>

definition in_vain :: "int \<Rightarrow> nat \<Rightarrow> ('l, 'a) mobile_user_scheme \<Rightarrow> bool" where
  "in_vain fd n s \<longleftrightarrow> (\<exists>evs. since_link fd evs (trace s) \<and> length (polled fd evs) = n \<and> (\<forall>r \<in> set (polled fd evs). r \<le> 0))"

text \<open>A round of the wait finds nothing, fails, or starts the clock.\<close>

lemma starting_round:
  assumes "disciplined K L I" and "starting E exact K L I fd bst s" and "run_state (bgb_loop E bst) s = (a, s')"
  obtains (quiet) "a = Ret (True, bst)" "starting E exact K L I fd bst s'"
      "trace s' = (link_poll fd, reply E (trace s) (link_poll fd)) # trace s" "ret (reply E (trace s) (link_poll fd)) \<le> 0"
  | (broken) bst' where "a = Ret (False, bst')"
  | (ticks) bst' where "a = Ret (True, bst')" "starting E exact K L I fd bst' s'" "bgb_clock_init s'"
proof -
  have cb: "callback_timestamp bst = Some bgb_loop_timestamp_init" and fd: "bgb_socket bst = fd"
    using assms(2) by (simp_all add: starting_def link_up_def)
  from tripleD [OF bgb_loop_starting [OF assms(1)] assms(2,3)] obtain ok bst' where
    a: "a = Ret (ok, bst')" and st: "starting E exact K L I fd bst' s'" by blast
  show thesis
  proof (cases "ret (reply E (trace s) (link_poll fd)) \<le> 0")
    case True
    then have "run_state (bgb_loop E bst) s = (Ret (True, bst), exec (socket_hasdata E fd) s)"
      "trace (exec (socket_hasdata E fd) s) = (link_poll fd, reply E (trace s) (link_poll fd)) # trace s"
      by (auto simp: bgb_loop_def socket_hasdata_def fd exec_def link_poll_def)
    with assms(3) a st True show ?thesis by (intro quiet) auto
  next
    case False
    show ?thesis
    proof (cases ok)
      case ok: True
      from False have "timestamp_init bst'"
        using assms(3) a ok cb
        by (auto simp: bgb_loop_def socket_hasdata_def fd link_poll_def run_andthen run_loop_clock bgb_loop_switch_def Let_def
            split: if_splits prod.splits cres.splits option.splits)
      with st have "bgb_clock_init s'" by (auto simp: starting_def dest: resting_flags)
      with a ok st show ?thesis by (intro ticks) simp_all
    next
      case False
      with a show ?thesis by (intro broken) simp
    qed
  qed
qed

lemma in_vain_again:
  assumes "in_vain fd n s" and "trace s' = (link_poll fd, r) # trace s" and "ret r \<le> 0"
  shows "in_vain fd (Suc n) s'"
proof -
  from assms(1) obtain evs where "since_link fd evs (trace s)" "length (polled fd evs) = n" "\<forall>r \<in> set (polled fd evs). r \<le> 0"
    by (auto simp: in_vain_def)
  with assms(2,3) show ?thesis
    unfolding in_vain_def by (intro exI [of _ "(link_poll fd, r) # evs"]) (auto simp: since_link_def polled_def)
qed

lemma wait_clock_ends:
  assumes "disciplined K L I" and "speaks E k"
  shows "starting E exact K L I fd bst s \<Longrightarrow> in_vain fd m s \<Longrightarrow> k \<le> m + n \<Longrightarrow>
    result (wait_clock E (Suc (Suc n)) bst) s \<noteq> Ret None"
proof (induction n arbitrary: bst s m)
  case 0
  obtain a s' where run: "run_state (bgb_loop E bst) s = (a, s')" by fastforce
  have "\<not> ret (reply E (trace s) (link_poll fd)) \<le> 0"
    using assms(2) 0(2,3) by (fastforce simp: speaks_def in_vain_def not_le)
  with run show ?case
    by (auto simp: result_def run_andthen intro: starting_round [OF assms(1) 0(1) run])
next
  case (Suc n)
  obtain a s' where run: "run_state (bgb_loop E bst) s = (a, s')" by fastforce
  show ?case
  proof (rule starting_round [OF assms(1) Suc.prems(1) run], goal_cases)
    case quiet: 1
    from Suc.IH [OF quiet(2) in_vain_again [OF Suc.prems(2) quiet(3,4)]] Suc.prems(3)
    have "result (wait_clock E (Suc (Suc n)) bst) s' \<noteq> Ret None" by simp
    with run quiet(1) show ?case
      unfolding result_def wait_clock.simps(2) [of E "Suc (Suc n)"] by (simp add: run_andthen del: wait_clock.simps)
  qed (use run in \<open>auto simp: result_def run_andthen\<close>)
qed

section \<open>The end of the main loop\<close>

text \<open>
  No operation takes back a system call, so the number of times the signal flag has been read
  does not decrease.
\<close>

definition read_flag :: "nat \<Rightarrow> ('l, 'a) mobile_user_scheme \<Rightarrow> bool" where
  "read_flag k s \<longleftrightarrow> k \<le> flag_count (trace s)"

interpretation flag_read: history "\<lambda>tr. k \<le> flag_count tr" for k
  by unfold_locales (auto simp: flag_count_def)

lemma read_flag_eq: "read_flag k = (\<lambda>s. k \<le> flag_count (trace s))"
  by (simp add: read_flag_def fun_eq_iff)

lemma read_flag_sys [keeps_intros]: "keeps (read_flag k) (sys E c)"
  by (rule keepsI) (auto simp: read_flag_def flag_count_def)

lemma read_flag_calls [keeps_intros]:
  "keeps (read_flag k) (eprint t)" "keeps (read_flag k) (socket_perror E f)" "keeps (read_flag k) (socket_hasdata E fd)"
  "keeps (read_flag k) (socket_wait E ws d)" "keeps (read_flag k) (call_lib E K g)" "keeps (read_flag k) (mobile_handle_loop E K L)"
  unfolding read_flag_eq by (intro keeps_intros)+

lemma read_flag_link [keeps_intros]:
  "keeps (read_flag k) (bgb_send E fd p)" "keeps (read_flag k) (bgb_recv E fd)"
  unfolding bgb_send_def bgb_recv_def by (intro keeps_intros)+

lemma read_flag_switch:
  assumes "link_up E K L fd bgb_loop_timestamp bst"
  shows "triple (read_flag k) (bgb_loop_switch E bst p) (\<lambda>a s. read_flag k s \<and>
    (\<forall>bst' cur. a = Ret (Some (bst', cur)) \<longrightarrow> callback_timestamp bst' = Some bgb_loop_timestamp))"
proof -
  have t: "callback_transfer bst = Some (bgb_loop_transfer E K L)" "callback_timestamp bst = Some bgb_loop_timestamp"
    using assms by (simp_all add: link_up_def)
  have "keeps (read_flag k) (bgb_loop_switch E bst p)"
    unfolding bgb_loop_switch_def Let_def t(1) option.case bgb_loop_transfer_def by (intro keeps_intros)
  moreover have "callback_timestamp bst' = Some bgb_loop_timestamp"
    if "run_state (bgb_loop_switch E bst p) s = (Ret (Some (bst', cur)), s')" for s s' bst' cur
    using that t
    by (auto simp: bgb_loop_switch_def Let_def run_andthen split: if_splits prod.splits cres.splits)
  ultimately show ?thesis
    unfolding keeps_def triple_def by (auto split: prod.splits)
qed

lemma read_flag_bgb_loop:
  assumes "link_up E K L fd bgb_loop_timestamp bst"
  shows "keeps (read_flag k) (bgb_loop E bst)"
proof -
  have stamp: "keeps (read_flag k) (bgb_loop_timestamp t)" for t
    unfolding bgb_loop_timestamp_def by (intro keeps_intros) (simp_all add: read_flag_def)
  have clock: "keeps (read_flag k) (bgb_loop_clock bst' cur)" if "callback_timestamp bst' = Some bgb_loop_timestamp" for bst' cur
    unfolding bgb_loop_clock_def that option.case by (intro keeps_intros stamp)
  have "triple (read_flag k) (andthen (bgb_loop_switch E bst p) (\<lambda>res. case res of None \<Rightarrow> ret_ok (False, bst)
      | Some (bst, cur) \<Rightarrow> do { bst \<leftarrow> bgb_loop_clock bst cur; ret_ok (True, bst) })) (\<lambda>_. read_flag k)" for p
  proof (rule triple_andthen [OF read_flag_switch [OF assms]], goal_cases)
    case (1 res)
    show ?case
    proof (cases "\<exists>bst' cur. res = Some (bst', cur) \<and> callback_timestamp bst' = Some bgb_loop_timestamp")
      case True
      then obtain bst' cur where res: "res = Some (bst', cur)" and "callback_timestamp bst' = Some bgb_loop_timestamp" by blast
      then have "keeps (read_flag k) (do { bst \<leftarrow> bgb_loop_clock bst' cur; ret_ok (True, bst) })"
        by (intro keeps_intros clock)
      then show ?thesis unfolding keeps_def res option.case prod.case by (rule triple_conseq) auto
    next
      case False
      then show ?thesis by (cases res) (auto simp: triple_def)
    qed
  qed auto
  then have "keeps (read_flag k) (andthen (bgb_loop_switch E bst p) (\<lambda>res. case res of None \<Rightarrow> ret_ok (False, bst)
      | Some (bst, cur) \<Rightarrow> do { bst \<leftarrow> bgb_loop_clock bst cur; ret_ok (True, bst) }))" for p
    by (simp add: keeps_def)
  then show ?thesis
    unfolding bgb_loop_def
    by (intro keeps_bind keeps_if keeps_case_option keeps_return read_flag_calls(3) read_flag_link(2))
qed

lemma read_flag_round:
  assumes "link_up E K L fd bgb_loop_timestamp bst"
  shows "keeps (read_flag k) (main_round E K L fd bst)"
  unfolding main_round_def by (intro keeps_intros read_flag_bgb_loop [OF assms])

text \<open>The signal arrives: once the flag has been read \<open>k\<close> times, it is set.\<close>

definition interrupted :: "os_env \<Rightarrow> nat \<Rightarrow> bool" where
  "interrupted E k \<longleftrightarrow> (\<forall>tr. k \<le> flag_count tr \<longrightarrow> ret (reply E tr Sys_signal_flag) \<noteq> 0)"

lemma main_loop_ends:
  assumes "disciplined K L I" and "interrupted E k"
  shows "running E exact K L I fd bst s \<Longrightarrow> k \<le> flag_count (trace s) + n \<Longrightarrow>
    \<exists>s'. run_state (main_loop E K L fd (Suc n) bst) s = (Ret (Some ()), s')"
proof (induction n arbitrary: bst s)
  case 0
  then show ?case using assms(2) by (simp add: interrupted_def)
next
  case (Suc n)
  let ?s1 = "logged E Sys_signal_flag s"
  show ?case
  proof (cases "ret (reply E (trace s) Sys_signal_flag) = 0")
    case False
    then show ?thesis by simp
  next
    case True
    have s1: "running E exact K L I fd bst ?s1"
      using tripleD [OF signal_running Suc.prems(1)] by (simp add: run_sys)
    obtain a s2 where r: "run_state (main_round E K L fd bst) ?s1 = (a, s2)" by fastforce
    from tripleD [OF main_round_running [OF assms(1)] s1 r] obtain o1 bst' where
      o1: "a = Ret o1" "running E exact K L I fd bst' s2" "\<forall>b. o1 = Some b \<longrightarrow> b = bst'" by blast
    have "link_up E K L fd bgb_loop_timestamp bst" using s1 by (simp add: running_def)
    from keepsD [OF read_flag_round [OF this], of "Suc (flag_count (trace s))" ?s1] r
    have "Suc (flag_count (trace s)) \<le> flag_count (trace s2)" by (simp add: read_flag_def flag_count_def)
    with Suc.prems(2) have "k \<le> flag_count (trace s2) + n" by simp
    from Suc.IH [OF o1(2) this] True r o1(1,3) show ?thesis
      by (cases o1) (auto simp: run_andthen simp del: main_loop.simps(2) simp: main_loop.simps(2) [of E K L fd "Suc n"])
  qed
qed

text \<open>C6.
  \<open>SIGINT\<close> ends the program: when the signal has set the flag by its \<open>k\<close>-th reading at the
  latest, the main loop has ended by itself after at most \<open>k + 1\<close> rounds (the fuel has not
  run out), whatever the emulator and the operating system do and under every library that
  keeps to the protocol, and the shutdown that follows returns success.
\<close>

theorem signal_ends_program:
  assumes "disciplined K L I" and "interrupted E k" and "running E exact K L I fd bst s" and "k < n"
  shows "\<exists>s1. run_state (main_loop E K L fd n bst) s = (Ret (Some ()), s1) \<and>
    result (main_shutdown E K L fd) s1 = Ret EXIT_SUCCESS"
proof -
  obtain n' where n: "n = Suc n'" "k \<le> n'" using assms(4) by (cases n) auto
  from main_loop_ends [OF assms(1,2,3), of n'] n obtain s1 where
    l: "run_state (main_loop E K L fd n bst) s = (Ret (Some ()), s1)" by auto
  from tripleD [OF main_loop_running [OF assms(1)] assms(3) l] obtain t r where
    "resting E exact K {fd} I r t True s1" by (auto simp: running_def)
  from tripleD [OF main_shutdown_ends [OF assms(1)] this run_state_pair] l show ?thesis by blast
qed

text \<open>A state of the running program: the two packets of the handshake have been received.\<close>

definition running_lab :: "nat mobile_user" where
  "running_lab = (user_lab_of 0)\<lparr>trace := [(Sys_recv 3 8, ok_ret\<lparr>ret := 8\<rparr>), (Sys_recv 3 8, ok_ret\<lparr>ret := 8\<rparr>),
     (Sys_socket AF_INET SOCK_STREAM 6, ok_ret\<lparr>ret := 3\<rparr>)]\<rparr>"

definition link_running :: "os_env \<Rightarrow> nat mobile_user bgb_state" where
  "link_running E = \<lparr>bgb_socket = 3, bgb_byte = 0xD2, callback_transfer = Some (bgb_loop_transfer E consts_lab lib_lab),
     callback_timestamp = Some bgb_loop_timestamp, timestamp_last = 7, timestamp_init = True\<rparr>"

lemma running_running_lab:
  assumes "fresh_fds E" and "fcntl_ok E"
  shows "running E True consts_lab lib_lab (\<lambda>C l. C = {}) 3 (link_running E) running_lab"
proof -
  have "open_conns [- 1, - 1] = {}" by (auto simp: open_conns_def less_Suc_eq nth_Cons')
  then have "table E True 2 {3} (sock_os.more running_lab) {} running_lab"
    using assms
    by (intro tableI [where L = "{3}" and xs = "[- 1, - 1]"])
      (auto simp: fds_def table_ok_def slots_def running_lab_def user_lab_of_def ok_ret_def)
  moreover have "user_ok consts_lab running_lab"
    by (simp add: user_ok_def running_lab_def user_lab_of_def consts_lab_def number_ok_def cstr_def ascii_def)
  ultimately have "resting E True consts_lab {3} (\<lambda>C l. C = {}) True 7 True running_lab"
    using title_fits_lab
    by (auto simp: resting_def serving_def host_def flags_def running_lab_def user_lab_of_def consts_lab_def intro!: exI [of _ 0])
  then show ?thesis by (auto simp: running_def link_up_def link_running_def)
qed

lemma session_ok: "fresh_fds session_lab" "fcntl_ok session_lab" "interrupted session_lab 1" "speaks session_lab 0"
  unfolding session_lab_def
  by (rule fresh_fds_lab_env) (auto simp: fcntl_ok_def lab_env_def ok_ret_def interrupted_def speaks_def link_poll_def)

theorem signal_ends_program_witness:
  "\<exists>s1. run_state (main_loop session_lab consts_lab lib_lab 3 2 (link_running session_lab)) running_lab = (Ret (Some ()), s1) \<and>
     result (main_shutdown session_lab consts_lab lib_lab 3) s1 = Ret EXIT_SUCCESS"
  by (rule signal_ends_program [OF disciplined_lab session_ok(3) running_running_lab [OF session_ok(1,2)]]) simp

end
