(* ===== verification/Main_Program.thy ===== *)
theory Main_Program
  imports Main_Ends
begin

text \<open>
  The program as a whole: what holds from the first instruction of \<open>main\<close> to its exit
  status, that it ends, the preparation of the configuration file, and the states of
  the main loop.
\<close>

section \<open>Serving\<close>

text \<open>
  How the program may end: with a defined exit status or, unless \<open>e\<close>, out of fuel; no
  misused descriptor; and on success, when nothing leaks, no descriptor left.
\<close>

definition finished :: "bool \<Rightarrow> bool \<Rightarrow> int option cres \<Rightarrow> ('l, 'a) mobile_user_scheme \<Rightarrow> bool" where
  "finished exact e a s \<longleftrightarrow> trace_ok (trace s) \<and> (e \<longrightarrow> a \<noteq> Ret None) \<and>
     (\<exists>o1 \<in> {None, Some EXIT_SUCCESS, Some EXIT_FAILURE}. a = Ret o1 \<and> (exact \<and> o1 = Some EXIT_SUCCESS \<longrightarrow> live (trace s) = {}))"

lemma resting_finished: "resting E exact K B I r t i s \<Longrightarrow> o1 \<in> {None, Some EXIT_FAILURE} \<Longrightarrow> (e \<Longrightarrow> o1 \<noteq> None) \<Longrightarrow> finished exact e (Ret o1) s"
  by (auto simp: resting_def finished_def dest: serving_trace_ok)

lemma observer_bgb_init: "observer {fd} (bgb_init E fd b ft fs)"
  unfolding bgb_init_def
  by (intro observer_intros observer_bgb_send observer_bgb_recv)

lemma bgb_init_state:
  "triple P (bgb_init E fd b ft fs) (\<lambda>r _. snd r = \<lparr>bgb_socket = fd, bgb_byte = b, callback_transfer = ft,
     callback_timestamp = fs, timestamp_last = 0, timestamp_init = False\<rparr>)"
  unfolding bgb_init_def Let_def
  by (intro triple_bind [where R = "\<lambda>_ _. True"] triple_if) (auto simp: triple_def split: option.splits prod.splits)

lemma triple_conj:
  "triple P m Q \<Longrightarrow> triple P m R \<Longrightarrow> triple P m (\<lambda>a s. Q a s \<and> R a s)"
  by (auto simp: triple_def split: prod.splits)

text \<open>
  When the program must end: the emulator speaks and the signal comes, and the fuel of
  the two loops is enough for that.
\<close>

definition will_end :: "os_env \<Rightarrow> nat \<Rightarrow> nat \<Rightarrow> bool" where
  "will_end E fw fu \<longleftrightarrow> (\<exists>k j. speaks E k \<and> k + 2 \<le> fw \<and> interrupted E j \<and> j + 1 \<le> fu)"

lemma wait_clock_will_end:
  assumes "disciplined K L I"
  shows "triple (\<lambda>s. starting E exact K L I fd bst s \<and> in_vain fd 0 s) (wait_clock E fw bst)
    (\<lambda>a s. will_end E fw fu \<longrightarrow> a \<noteq> Ret None)"
proof (rule tripleI, rule impI)
  fix s a s'
  assume s: "starting E exact K L I fd bst s \<and> in_vain fd 0 s" and run: "run_state (wait_clock E fw bst) s = (a, s')"
    and "will_end E fw fu"
  then obtain k where k: "speaks E k" "k + 2 \<le> fw" by (auto simp: will_end_def)
  then have "fw = Suc (Suc (fw - 2))" "k \<le> 0 + (fw - 2)" by simp_all
  with wait_clock_ends [OF assms k(1) conjunct1 [OF s] conjunct2 [OF s], of "fw - 2"] run show "a \<noteq> Ret None"
    by (simp add: result_def del: wait_clock.simps)
qed

text \<open>The handshake does not poll.\<close>

lemma in_vain_other:
  assumes "in_vain fd n s" and "trace s' = (c, r) # trace s" and "c \<noteq> link_poll fd"
  shows "in_vain fd n s'"
proof -
  from assms(1) obtain evs where "since_link fd evs (trace s)" "length (polled fd evs) = n" "\<forall>r \<in> set (polled fd evs). r \<le> 0"
    by (auto simp: in_vain_def)
  with assms(2,3) show ?thesis
    unfolding in_vain_def by (intro exI [of _ "(c, r) # evs"]) (auto simp: since_link_def polled_def)
qed

lemma in_vain_send [keeps_intros]: "keeps (in_vain fd n) (bgb_send E fd' p)"
  by (rule keepsI, drule bgb_send_trace, elim exE conjE, erule in_vain_other, assumption) (simp add: link_poll_def)

lemma in_vain_recv [keeps_intros]: "keeps (in_vain fd n) (bgb_recv E fd')"
  by (rule keepsI, drule bgb_recv_trace, elim exE conjE, erule in_vain_other, assumption) (simp add: link_poll_def)

lemma in_vain_eprint [keeps_intros]: "keeps (in_vain fd n) (eprint t)"
  by (rule keepsI) (auto simp: in_vain_def)

lemma bgb_init_in_vain: "keeps (in_vain fd n) (bgb_init E fd' b ft fs)"
  unfolding bgb_init_def by (intro keeps_intros)

lemma main_loop_will_end:
  assumes "disciplined K L I"
  shows "triple (running E exact K L I fd bst) (main_loop E K L fd fu bst) (\<lambda>a s. will_end E fw fu \<longrightarrow> a \<noteq> Ret None)"
proof (rule tripleI, rule impI)
  fix s a s'
  assume s: "running E exact K L I fd bst s" and run: "run_state (main_loop E K L fd fu bst) s = (a, s')" and "will_end E fw fu"
  then obtain j where j: "interrupted E j" "j + 1 \<le> fu" by (auto simp: will_end_def)
  then have "fu = Suc (fu - 1)" "j \<le> flag_count (trace s) + (fu - 1)" by simp_all
  with main_loop_ends [OF assms j(1) s, of "fu - 1"] run show "a \<noteq> Ret None" by (auto simp del: main_loop.simps)
qed

lemma main_loop_finishes_from:
  assumes d: "disciplined K L I"
  shows "triple (running E exact K L I fd bst) (andthen (main_loop E K L fd fu bst) (\<lambda>r. case r of
      None \<Rightarrow> ret_ok None
    | Some _ \<Rightarrow> andthen (main_shutdown E K L fd) (\<lambda>rc. ret_ok (Some rc)))) (finished exact (will_end E fw fu))"
    (is "triple _ _ ?Q")
proof (rule triple_andthen [OF triple_conj [OF main_loop_running [OF d] main_loop_will_end [OF d, where fw = fw]]], goal_cases)
  case (1 r)
  have "triple (resting E exact K {fd} I r' t True) (andthen (main_shutdown E K L fd) (\<lambda>rc. ret_ok (Some rc))) ?Q" for r' t
    by (rule triple_andthen [OF main_shutdown_ends [OF d]]) (auto simp: triple_def finished_def)
  then have down: "triple (\<lambda>s. \<exists>r' t. resting E exact K {fd} I r' t True s)
      (andthen (main_shutdown E K L fd) (\<lambda>rc. ret_ok (Some rc))) ?Q"
    by (intro triple_ex)
  show ?case
  proof (cases r)
    case None
    then show ?thesis by (auto simp: triple_def running_def intro: resting_finished)
  next
    case (Some u)
    then show ?thesis by simp (rule triple_conseq [OF down], auto simp: running_def)
  qed
qed auto

lemma start_running:
  assumes d: "disciplined K L I" and "timestamp_init bst"
  shows "triple (starting E exact K L I fd bst) (call_lib E K (mobile_start L))
    (\<lambda>a s. returns a \<and> running E exact K L I fd (bst\<lparr>callback_timestamp := Some bgb_loop_timestamp\<rparr>) s)"
proof (cases "link_up E K L fd bgb_loop_timestamp_init bst")
  case True
  then show ?thesis
    by (intro triple_conseq [OF step_resting [OF entry_points(1) [OF d],
          where B = "{fd}" and r = False and t = "timestamp_last bst" and i = True]])
      (use assms(2) in \<open>auto simp: starting_def running_def link_up_def\<close>)
next
  case False
  then show ?thesis by (simp add: triple_def starting_def)
qed

lemma main_after_wait_finishes:
  assumes d: "disciplined K L I"
  shows "triple (\<lambda>s. (\<exists>o1 bst'. Ret r = Ret o1 \<and> starting E exact K L I fd bst' s \<and>
       (\<forall>ok b. o1 = Some (ok, b) \<longrightarrow> b = bst' \<and> (ok \<longrightarrow> timestamp_init b))) \<and> (will_end E fw fu \<longrightarrow> Ret r \<noteq> Ret None))
    (main_after_wait E K L fd fu r) (finished exact (will_end E fw fu))" (is "triple _ _ ?Q")
proof (cases r)
  case None
  then show ?thesis by (auto simp: main_after_wait_def triple_def starting_def intro: resting_finished)
next
  case (Some x)
  then obtain ok b where r: "r = Some (ok, b)" by (cases x) simp
  consider "\<not> ok" | "ok" "timestamp_init b" | "ok" "\<not> timestamp_init b" by blast
  then show ?thesis
  proof cases
    case 1
    then show ?thesis by (auto simp: r main_after_wait_def triple_def starting_def intro: resting_finished)
  next
    case 2
    have "triple (starting E exact K L I fd b) (main_after_wait E K L fd fu r) ?Q"
      unfolding main_after_wait_def r
      using 2(1) by simp (rule triple_andthen [OF start_running [OF d 2(2)]], simp_all add: main_loop_finishes_from [OF d])
    then show ?thesis unfolding r by (rule triple_conseq) auto
  next
    case 3
    then show ?thesis by (auto simp: r triple_def)
  qed
qed

lemma triple_weaken: "triple P m Q \<Longrightarrow> (\<And>s. P' s \<Longrightarrow> P s) \<Longrightarrow> triple P' m Q"
  by (rule triple_conseq)

lemma main_serve_finishes:
  assumes d: "disciplined K L I"
  shows "triple (\<lambda>s. resting E exact K {fd} I False t False s \<and> in_vain fd 0 s) (main_serve E K L fd fw fu)
    (finished exact (will_end E fw fu))" (is "triple ?P _ ?Q")
proof -
  have init: "triple ?P
      (bgb_init E fd (MOBILE_SERIAL_IDLE_BYTE K) (Some (bgb_loop_transfer E K L)) (Some bgb_loop_timestamp))
      (\<lambda>x s. snd x = \<lparr>bgb_socket = fd, bgb_byte = MOBILE_SERIAL_IDLE_BYTE K, callback_transfer = Some (bgb_loop_transfer E K L),
         callback_timestamp = Some bgb_loop_timestamp, timestamp_last = 0, timestamp_init = False\<rparr> \<and> ?P s)"
    by (rule triple_conj [OF bgb_init_state triple_conj
          [OF triple_weaken [OF resting_observer [OF observer_bgb_init]] triple_weaken [OF bgb_init_in_vain [unfolded keeps_def]]]])
      simp_all
  show ?thesis
    unfolding main_serve_def
  proof (rule triple_bind [OF init], goal_cases)
    case (1 x)
    obtain ok bst where x: "x = (ok, bst)" by (cases x)
    let ?bst = "bst\<lparr>callback_timestamp := Some bgb_loop_timestamp_init\<rparr>"
    have "triple (\<lambda>s. starting E exact K L I fd ?bst s \<and> in_vain fd 0 s)
        (andthen (wait_clock E fw ?bst) (main_after_wait E K L fd fu)) ?Q"
      by (rule triple_andthen [OF triple_conj [OF triple_weaken [OF wait_clock_starting [OF d]] wait_clock_will_end [OF d]]
            main_after_wait_finishes [OF d]]) auto
    then show ?case
      unfolding x prod.case snd_conv
    proof (intro triple_if, goal_cases)
      case 1
      then show ?case by (auto simp: triple_def intro: resting_finished)
    next
      case 2
      from 2(1) show ?case by (rule triple_conseq) (auto simp: starting_def link_up_def)
    qed
  qed
qed

section \<open>Connecting\<close>

lemma keeps_more_sys [keeps_intros]: "keeps (\<lambda>s. os.more s = m) (sys E c)"
  by (rule keepsI) auto

lemma keeps_more_perror [keeps_intros]: "keeps (\<lambda>s. os.more s = m) (socket_perror E f)"
  by (rule keepsI) auto

lemma keeps_more_seterror [keeps_intros]: "keeps (\<lambda>s. os.more s = m) (socket_seterror e)"
  by (rule keepsI) auto

lemma keeps_more_geterror [keeps_intros]: "keeps (\<lambda>s. os.more s = m) socket_geterror"
  by (rule keepsI) auto

lemma keeps_more_eprint [keeps_intros]: "keeps (\<lambda>s. os.more s = m) (eprint t)"
  by (rule keepsI) auto

lemma keeps_more_connect_loop [keeps_intros]: "keeps (\<lambda>s. os.more s = m) (socket_connect_loop E infos e)"
  by (induction infos arbitrary: e) (auto simp: socket_close_def intro!: keeps_intros)

lemma keeps_more_connect: "keeps (\<lambda>s. os.more s = m) (socket_connect E h p)"
  unfolding socket_connect_def by (intro keeps_intros)

text \<open>The new descriptor joins those outside the table.\<close>

lemma connect_resting:
  assumes "run_state (socket_connect E h p) s = (fd, s')" and "resting E exact K {} I r t i s"
  shows "resting E exact K (if fd = INVALID_SOCKET then {} else {fd}) I r t i s'"
proof -
  obtain C where h: "title_fits K" "user_ok K s" "flags s = (r, action s, t, i)" "I C (adapter s)"
    and tb: "table E exact (MOBILE_MAX_CONNECTIONS K) {} (sock_os.more s) C s"
    and a: "action s AND MOBILE_ACTION_RESET_SERIAL K = 0"
    using resting_serving [OF assms(2)] by (auto simp: serving_def host_def)
  from tb obtain L xs where f: "fresh_fds E" "fds L xs (sock_os.more s) s" "table_ok (MOBILE_MAX_CONNECTIONS K) {} L xs"
    "open_conns xs = C" "exact \<longrightarrow> fcntl_ok E \<and> L = slots xs"
    by (auto simp: table_def)
  have more: "os.more s' = os.more s"
    using keepsD [OF keeps_more_connect, of s "os.more s" E h p] assms(1) by simp
  note new = socket_connect_live [OF f(1) assms(1)] more_cong [OF more]
  let ?B = "if fd = INVALID_SOCKET then {} else {fd}"
  have "table E exact (MOBILE_MAX_CONNECTIONS K) ?B (sock_os.more s') C s'"
    by (rule tableI [OF f(1), where L = "L \<union> ?B" and xs = xs])
      (use f new in \<open>auto simp: fds_def table_ok_def split: if_splits\<close>)
  moreover have "adapter s' = adapter s" "action s' = action s" using more by (cases s; cases s'; simp)+
  ultimately show ?thesis
    using h a user_ok_more [of s' s] flags_more [of s' s] new(3)
    by (auto simp: resting_def serving_def host_def)
qed

lemma update_title_resting:
  "triple (resting E exact K B I r t i) update_title (\<lambda>a s. returns a \<and> resting E exact K B I r t i s)"
proof (rule tripleI)
  fix s a s'
  assume s: "resting E exact K B I r t i s" and run: "run_state update_title s = (a, s')"
  then have "title_fits K" "user_ok K s" by (auto simp: resting_def serving_def host_def)
  from run_update_title [OF this] run resting_flags [OF s]
  show "returns a \<and> resting E exact K B I r t i s'"
    by (auto intro!: resting_cong [OF s] simp: user_ok_def flags_def)
qed

lemma main_connect_finishes:
  assumes d: "disciplined K L I"
  shows "triple (resting E exact K {} I False t False) (main_connect E K L o1 fw fu) (finished exact (will_end E fw fu))"
proof (rule tripleI)
  fix s a s'
  assume s: "resting E exact K {} I False t False s" and run: "run_state (main_connect E K L o1 fw fu) s = (a, s')"
  obtain fd s1 where c: "run_state (socket_connect E (opt_host o1) (opt_port o1)) s = (fd, s1)" by fastforce
  note s1 = connect_resting [OF c s]
  show "finished exact (will_end E fw fu) a s'"
  proof (cases "fd = INVALID_SOCKET")
    case True
    have "observer {} (do { eprint (could_not_connect o1); socket_perror E None; ret_ok (Some EXIT_FAILURE :: int option) })"
      by (intro observer_intros)
    from tripleD [OF resting_observer [OF this, where B = "{}"], of E exact K I False t False s1] True s1 run c
    show ?thesis by (auto simp: main_connect_def intro: resting_finished)
  next
    case False
    let ?P = "resting E exact K {fd} I False t False"
    let ?Q = "finished exact (will_end E fw fu)"
    let ?c1 = "Sys_setsockopt fd TCP_NODELAY 1"
    have call: "triple ?P (sys E q) (\<lambda>_. ?P)" if "q \<in> {?c1, Sys_sigaction}" for q
      by (rule resting_observer [of "{fd}"]) (use that in \<open>auto intro!: observer_intros\<close>)
    have set: "triple ?P (sys E ?c1) (\<lambda>_ s. ?P s \<and> (\<exists>r tr. trace s = (?c1, r) # tr))"
      by (rule triple_conj [OF call]) (auto simp: triple_def)
    have sig: "triple (\<lambda>s. ?P s \<and> (\<exists>r tr. trace s = (?c1, r) # tr)) (sys E Sys_sigaction) (\<lambda>_ s. ?P s \<and> in_vain fd 0 s)"
      by (rule triple_conj [OF triple_weaken [OF call]])
        (auto simp: triple_def in_vain_def since_link_def polled_def intro!: exI [of _ "[]"])
    have "keeps (in_vain fd 0) update_title"
      unfolding update_title_def by (intro keeps_intros) (simp add: in_vain_def)
    then have v: "triple (\<lambda>s. ?P s \<and> in_vain fd 0 s) update_title (\<lambda>_. in_vain fd 0)"
      unfolding keeps_def by (rule triple_weaken) simp
    have "triple (\<lambda>s. ?P s \<and> in_vain fd 0 s) update_title (\<lambda>a s. returns a \<and> ?P s)"
      by (rule triple_weaken [OF update_title_resting]) simp
    from triple_conj [OF this v]
    have title: "triple (\<lambda>s. ?P s \<and> in_vain fd 0 s) update_title (\<lambda>a s. returns a \<and> ?P s \<and> in_vain fd 0 s)"
      by (simp only: conj_assoc)
    have fail: "triple P (do { m; ret_ok (Some EXIT_FAILURE) }) ?Q" if "\<And>s. P s \<Longrightarrow> ?P s" "observer {} m" for P and m :: "(_, unit) state"
    proof -
      have "triple P m (\<lambda>_. ?P)" by (rule triple_weaken [OF resting_observer [OF that(2)]]) (auto simp: that(1))
      then show ?thesis by (rule triple_bind) (auto simp: triple_def intro: resting_finished)
    qed
    have serve: "triple (\<lambda>s. ?P s \<and> in_vain fd 0 s) (andthen update_title (\<lambda>_. main_serve E K L fd fw fu)) ?Q"
      by (rule triple_andthen [OF title]) (simp_all add: main_serve_finishes [OF d])
    have "triple ?P (do {
         r \<leftarrow> sys E ?c1;
         if ret r = SOCKET_ERROR then do { socket_perror E (Some ''setsockopt''); ret_ok (Some EXIT_FAILURE) }
         else do {
           r \<leftarrow> sys E Sys_sigaction;
           if ret r = - 1 then do { perror E ''sigaction''; ret_ok (Some EXIT_FAILURE) }
           else andthen update_title (\<lambda>_. main_serve E K L fd fw fu)
         }
       }) ?Q"
      by (intro triple_bind [OF set] triple_bind [OF sig] triple_if fail serve observer_intros) simp_all
    from tripleD [OF this, of s1] s1 False run c show ?thesis by (auto simp: main_connect_def)
  qed
qed

section \<open>Setting up\<close>

lemma main_config_resting:
  assumes d: "disciplined K L I"
  shows "triple (resting E exact K B I r t i) (main_config E K L o1) (\<lambda>a s. returns a \<and> resting E exact K B I r t i s)"
proof -
  note step = step_resting [OF entry_points(6) [OF d]] step_resting [OF entry_points(7) [OF d]]
    step_resting [OF entry_points(8) [OF d]] step_resting [OF entry_points(9) [OF d]]
    step_resting [OF entry_points(10) [OF d]] step_resting [OF entry_points(11) [OF d]]
    step_resting [OF entry_points(12) [OF d]]
  show ?thesis
    unfolding main_config_def
    by (intro triple_returns_andthen [where Q = "resting E exact K B I r t i"] step triple_if triple_ret)
qed

text \<open>
  What the compiler and libmobile's headers guarantee: the arrays of the struct have
  their declared sizes, the empty set of actions is 0, and the title fits.
\<close>

definition struct_sizes :: "mobile_consts \<Rightarrow> ('l, 'a) mobile_user_scheme \<Rightarrow> bool" where
  "struct_sizes K s \<longleftrightarrow> length (sockets s) = MOBILE_MAX_CONNECTIONS K \<and> length (bgb_clock_latch s) = MOBILE_MAX_TIMERS K \<and>
     length (number_user s) = Suc (MOBILE_MAX_NUMBER_SIZE K) \<and> length (number_peer s) = Suc (MOBILE_MAX_NUMBER_SIZE K)"

definition consts_ok :: "mobile_consts \<Rightarrow> bool" where
  "consts_ok K \<longleftrightarrow> title_fits K \<and> MOBILE_ACTION_NONE K = 0"

lemma number_ok_cleared: "length a = Suc n \<Longrightarrow> number_ok n (a[0 := CHR 0x00])"
  by (cases a) (simp_all add: number_ok_def cstr_def ascii_def)

lemma init_user_resting:
  assumes "fresh_fds E" and "exact \<longrightarrow> fcntl_ok E" and "consts_ok K" and "mobile_new L = Some l" and "I {} l"
    and "struct_sizes K s" and "live (trace s) = {}" and "trace_ok (trace s)"
    and "run_state (init_user K L f) s = (u, s')"
  shows "u = Ret () \<and> resting E exact K {} I False 0 False s'"
proof -
  let ?n = "MOBILE_MAX_CONNECTIONS K"
  have free: "open_conns (replicate ?n INVALID_SOCKET) = {}" by (auto simp: open_conns_def)
  have s': "sockets s' = replicate ?n INVALID_SOCKET" "trace s' = trace s" "adapter s' = l" "u = Ret ()"
    "flags s' = (False, 0, 0, False)" "user_ok K s'"
    using assms(3,4,6,9)
    by (auto simp: init_user_def socket_impl_init_def fold_fill struct_sizes_def consts_ok_def flags_def user_ok_def
        number_ok_cleared)
  have "table E exact ?n {} (sock_os.more s') {} s'"
    by (rule tableI [OF assms(1), where L = "{}" and xs = "replicate ?n INVALID_SOCKET"])
      (use assms s' free in \<open>auto simp: fds_def table_ok_def slots_def\<close>)
  with s' assms(3,5) show ?thesis
    by (auto simp: resting_def serving_def host_def consts_ok_def intro!: exI [of _ 0])
qed

lemma finished_unstarted:
  "live (trace s) = {} \<Longrightarrow> trace_ok (trace s) \<Longrightarrow> code \<in> {EXIT_SUCCESS, EXIT_FAILURE} \<Longrightarrow> finished exact e (Ret (Some code)) s"
  by (auto simp: finished_def)

section \<open>The whole program\<close>

lemma main_finishes:
  assumes "fresh_fds E" and "consts_ok K" and "addr_type (zero_addr K) = ADDRTYPE_OTHER" and "disciplined K L I"
    and "struct_sizes K s" and "trace s = []"
    and "run_state (main E K L F pt malloc_ok fw fu prog args) s = (a, s')"
  shows "finished (fcntl_ok E) (will_end E fw fu) a s'" (is "finished ?x ?e _ _")
proof -
  have empty: "finished ?x ?e (Ret (Some code)) s'" if "trace s' = []" "code \<in> {EXIT_SUCCESS, EXIT_FAILURE}" for code
    using that by (intro finished_unstarted) simp_all
  show ?thesis
  proof (cases "main_options K pt prog args")
    case (Exit code msg)
    with assms(6,7) main_options_exit [OF assms(3) Exit] empty [of code] show ?thesis by (auto simp: main_def)
  next
    case o1: (Go o1)
    consider e where "open_config F (fname_config o1) = Inl e" | f where "open_config F (fname_config o1) = Inr f" "\<not> malloc_ok"
      | f where "open_config F (fname_config o1) = Inr f" malloc_ok
      by (cases "open_config F (fname_config o1)") auto
    then show ?thesis
    proof cases
      case (3 f)
      obtain u s1 where i: "run_state (init_user K L (pad_config K f)) s = (u, s1)" by (metis surj_pair)
      obtain l where l: "mobile_new L = Some l" "I {} l" using assms(4) by (auto simp: disciplined_def)
      have s1: "u = Ret ()" "resting E ?x K {} I False 0 False s1"
        using init_user_resting [where exact = ?x and I = I, OF assms(1) _ assms(2) l assms(5) _ _ i] assms(6) by simp_all
      have "run_state (andthen (main_config E K L o1) (\<lambda>_. main_connect E K L o1 fw fu)) s1 = (a, s')"
        using assms(7) o1 3 i s1(1) by (simp add: main_def run_andthen)
      moreover have "triple (resting E ?x K {} I False 0 False)
          (andthen (main_config E K L o1) (\<lambda>_. main_connect E K L o1 fw fu)) (finished ?x ?e)"
        by (rule triple_andthen [OF main_config_resting [OF assms(4)]])
          (simp_all add: main_connect_finishes [OF assms(4)])
      ultimately show ?thesis using s1 by (blast dest: tripleD)
    qed (use o1 assms(6,7) empty [of 1] in \<open>auto simp: main_def\<close>)
  qed
qed

text \<open>
  The process: \<open>main\<close> from the first instruction, up to its return or to the call at which
  \<open>SIGPIPE\<close> kills it. \<open>Returned (Ret None)\<close> means that the fuel has run out.
\<close>

datatype ending = Returned "int option cres" | Killed

definition process ::
    "os_env \<Rightarrow> mobile_consts \<Rightarrow> 'l mobile_lib \<Rightarrow> file_system \<Rightarrow> (string \<Rightarrow> pton) \<Rightarrow> bool \<Rightarrow> nat \<Rightarrow> nat \<Rightarrow>
     string \<Rightarrow> string list \<Rightarrow> ('l, 'a) mobile_user_scheme \<Rightarrow> ending \<times> trace" where
  "process E K L F inet_pton malloc_ok fuel_wait fuel program_name args s =
     (case run_state (main E K L F inet_pton malloc_ok fuel_wait fuel program_name args) s of (a, s') \<Rightarrow>
        (case killed (trace s') of Some tr \<Rightarrow> (Killed, tr) | None \<Rightarrow> (Returned a, trace s')))"

text \<open>C1.
  The program under a library that keeps to the protocol: whatever the arguments, the files,
  the emulator and the operating system do, it never fails an assertion nor runs into
  undefined behaviour; every system call names open descriptors only; it is killed only by
  \<open>SIGPIPE\<close>, at a send on a broken connection; if \<open>main\<close> returns, it returns one of the two
  exit statuses; and when it returns success, and the flags of open descriptors can be read
  and written (\<open>fcntl_ok\<close>), every descriptor has been closed.
\<close>

theorem main_safe:
  assumes "fresh_fds E" and "consts_ok K" and "addr_type (zero_addr K) = ADDRTYPE_OTHER" and "disciplined K L I"
    and "struct_sizes K s" and "trace s = []"
    and "process E K L F pt malloc_ok fw fu prog args s = (e, tr)"
  shows "trace_ok tr \<and>
    (e = Killed \<and> (\<exists>c r tr'. tr = (c, r) # tr' \<and> broken_pipe (c, r)) \<or>
     (\<exists>o1 \<in> {None, Some EXIT_SUCCESS, Some EXIT_FAILURE}. e = Returned (Ret o1) \<and>
       (fcntl_ok E \<and> o1 = Some EXIT_SUCCESS \<longrightarrow> live tr = {})))"
proof -
  obtain a s' where run: "run_state (main E K L F pt malloc_ok fw fu prog args) s = (a, s')" by fastforce
  note f = main_finishes [OF assms(1-6) run]
  show ?thesis
  proof (cases "killed (trace s')")
    case None
    with f run assms(7) show ?thesis by (auto simp: process_def finished_def)
  next
    case (Some tr')
    with run assms(7) have "e = Killed" "tr = tr'" by (auto simp: process_def)
    with f Some trace_ok_killed [of "trace s'" tr'] killed_hd [OF Some] show ?thesis by (auto simp: finished_def)
  qed
qed

definition files_lab :: file_system where
  "files_lab = \<lparr>fopen_existing = (\<lambda>_. None), fopen_create = (\<lambda>_. Inr \<lparr>content = [], fpos = 0, room = 100\<rparr>)\<rparr>"

lemma lab_starts:
  "consts_ok consts_lab" "addr_type (zero_addr consts_lab) = ADDRTYPE_OTHER" "struct_sizes consts_lab (user_lab_of (0 :: nat))"
  "trace (user_lab_of (0 :: nat)) = []"
  using title_fits_lab by (simp_all add: consts_ok_def consts_lab_def struct_sizes_def user_lab_of_def)

theorem main_safe_witness:
  "\<exists>tr. process session_lab consts_lab lib_lab files_lab pton_lab True 3 3 ''mobile'' [] (user_lab_of 0) =
      (Returned (Ret (Some EXIT_SUCCESS)), tr) \<and> live tr = {}"
proof -
  let ?p = "process session_lab consts_lab lib_lab files_lab pton_lab True 3 3 ''mobile'' [] (user_lab_of (0 :: nat))"
  have "fst ?p = Returned (Ret (Some EXIT_SUCCESS))" by code_simp
  then obtain tr where p: "?p = (Returned (Ret (Some EXIT_SUCCESS)), tr)" by (metis prod.collapse)
  from main_safe [OF session_ok(1) lab_starts(1,2) disciplined_lab lab_starts(3,4) p] session_ok(2) p
  show ?thesis by simp
qed

text \<open>C2.
  The program ends: when the library keeps to the protocol, one of the first \<open>k + 1\<close> polls of
  the connected emulator finds something (a packet, an error or the end of the stream),
  and \<open>SIGINT\<close> has set the flag by its \<open>j\<close>-th reading, then after at most \<open>k + 2\<close> rounds of
  the wait for the clock and \<open>j + 1\<close> rounds of the main loop \<open>main\<close> has returned an exit
  status, unless \<open>SIGPIPE\<close> has killed the process before. The files, the arguments and the
  other answers of the operating system are arbitrary.
\<close>

theorem main_terminates:
  assumes "fresh_fds E" and "consts_ok K" and "addr_type (zero_addr K) = ADDRTYPE_OTHER" and "disciplined K L I"
    and "struct_sizes K s" and "trace s = []"
    and "speaks E k" and "k + 2 \<le> fw" and "interrupted E j" and "j + 1 \<le> fu"
  shows "fst (process E K L F pt malloc_ok fw fu prog args s) \<in>
    {Returned (Ret (Some EXIT_SUCCESS)), Returned (Ret (Some EXIT_FAILURE)), Killed}"
proof -
  obtain a s' where run: "run_state (main E K L F pt malloc_ok fw fu prog args) s = (a, s')" by fastforce
  have "will_end E fw fu" using assms(7-10) by (auto simp: will_end_def)
  with main_finishes [OF assms(1-6) run] run show ?thesis
    by (auto simp: finished_def process_def split: option.split)
qed

theorem main_terminates_witness:
  "fst (process session_lab consts_lab lib_lab files_lab pton_lab True 2 2 ''mobile'' [] (user_lab_of 0)) \<in>
     {Returned (Ret (Some EXIT_SUCCESS)), Returned (Ret (Some EXIT_FAILURE)), Killed}"
  by (rule main_terminates [OF session_ok(1) lab_starts(1,2) disciplined_lab lab_starts(3,4) session_ok(4) _ session_ok(3)])
    simp_all



section \<open>The configuration file\<close>

lemma pad_loop_content:
  assumes "fpos f = length (content f)"
  shows "content (pad_loop n f) = content f @ replicate (min n (room f - length (content f))) 0 \<and>
    room (pad_loop n f) = room f"
  using assms
proof (induction n arbitrary: f)
  case (Suc n)
  show ?case
  proof (cases "length (content f) < room f")
    case True
    then have w: "snd (fwrite [0] f) = f\<lparr>content := content f @ [0], fpos := Suc (fpos f)\<rparr>"
      using Suc.prems by (cases "room f - length (content f)") (simp_all add: fwrite_def overwrite_def Let_def)
    obtain m where m: "room f - length (content f) = Suc m" using True by (cases "room f - length (content f)") auto
    then have "room f - Suc (length (content f)) = m" by simp
    with Suc.IH [of "snd (fwrite [0] f)"] Suc.prems m show ?thesis by (simp add: w)
  next
    case False
    then have "snd (fwrite [0] f) = f"
      using Suc.prems by (simp add: fwrite_def overwrite_def Let_def)
    with Suc False show ?thesis by simp
  qed
qed simp

text \<open>C27.
  Preparing the configuration file keeps what the file holds and fills it with zeros up
  to the size libmobile expects, as far as the device has room, and rewinds it. With
  room, every read that libmobile may make within that size then succeeds.
\<close>

theorem pad_config_extends:
  "content (pad_config K f) =
     content f @ replicate (min (nat (MOBILE_CONFIG_SIZE K - int (length (content f)))) (room f - length (content f))) 0 \<and>
   fpos (pad_config K f) = 0 \<and>
   (config s = pad_config K f \<and> MOBILE_CONFIG_SIZE K \<le> int (room f) \<and> unat offset < 2 ^ 63 \<and>
      int (unat offset + n) \<le> MOBILE_CONFIG_SIZE K \<longrightarrow> fst (result (impl_config_read offset n) s))"
proof -
  have c: "content (pad_config K f) =
      content f @ replicate (min (nat (MOBILE_CONFIG_SIZE K - int (length (content f)))) (room f - length (content f))) 0"
    using pad_loop_content [of "fseek_end f" "nat (MOBILE_CONFIG_SIZE K - int (length (content f)))"]
    by (simp add: pad_config_def Let_def fseek_end_def fseek_set_def)
  moreover have "fst (result (impl_config_read offset n) s)"
    if "config s = pad_config K f" "MOBILE_CONFIG_SIZE K \<le> int (room f)" "unat offset < 2 ^ 63" "int (unat offset + n) \<le> MOBILE_CONFIG_SIZE K"
  proof -
    have "int (length (content (pad_config K f))) \<ge> MOBILE_CONFIG_SIZE K" using that(2) by (simp add: c)
    with that(4) have "unat offset + n \<le> length (content (pad_config K f))" by linarith
    with that(1,3) show ?thesis by (simp add: result_def run_config_read Let_def)
  qed
  ultimately show ?thesis by (simp add: pad_config_def Let_def fseek_set_def)
qed

theorem pad_config_extends_witness:
  "fst (result (impl_config_read 4 4)
     ((user_lab_of ())\<lparr>config := pad_config consts_lab \<lparr>content = [1, 2], fpos = 0, room = 100\<rparr>\<rparr>))"
  using pad_config_extends [of consts_lab "\<lparr>content = [1, 2], fpos = 0, room = 100\<rparr>"
      "(user_lab_of ())\<lparr>config := pad_config consts_lab \<lparr>content = [1, 2], fpos = 0, room = 100\<rparr>\<rparr>" 4 4]
  by (simp add: consts_lab_def)

section \<open>The states of the main loop\<close>

text \<open>
  The states between the rounds of the main loop, as a transition relation: the loop
  goes on while the signal flag is clear and the round does not break it.
\<close>

inductive main_reach ::
    "os_env \<Rightarrow> mobile_consts \<Rightarrow> 'l mobile_lib \<Rightarrow> int \<Rightarrow> ('l, 'a) mobile_user_scheme bgb_state \<Rightarrow> ('l, 'a) mobile_user_scheme \<Rightarrow>
     ('l, 'a) mobile_user_scheme bgb_state \<Rightarrow> ('l, 'a) mobile_user_scheme \<Rightarrow> bool"
  for E K L fd bst0 s0 where
  entered: "main_reach E K L fd bst0 s0 bst0 s0"
| round: "main_reach E K L fd bst0 s0 bst s \<Longrightarrow> run_state (sys E Sys_signal_flag) s = (r, s1) \<Longrightarrow> ret r = 0 \<Longrightarrow>
    run_state (main_round E K L fd bst) s1 = (Ret (Some bst'), s2) \<Longrightarrow> main_reach E K L fd bst0 s0 bst' s2"

lemma main_reach_trans:
  assumes "main_reach E K L fd bst1 s1 bst2 s2" and "main_reach E K L fd bst0 s0 bst1 s1"
  shows "main_reach E K L fd bst0 s0 bst2 s2"
  using assms by (induction rule: main_reach.induct) (auto intro: main_reach.round)

text \<open>The relation is that of the loop: running out of fuel leaves a state it reaches.\<close>

lemma main_loop_reaches:
  "run_state (main_loop E K L fd n bst) s = (Ret None, s') \<Longrightarrow> \<exists>bst'. main_reach E K L fd bst s bst' s'"
proof (induction n arbitrary: bst s)
  case 0
  then show ?case by (auto intro: main_reach.entered)
next
  case (Suc n)
  from Suc.prems obtain bst1 s1 where z: "ret (reply E (trace s) Sys_signal_flag) = 0"
    and r: "run_state (main_round E K L fd bst) (logged E Sys_signal_flag s) = (Ret (Some bst1), s1)"
    and l: "run_state (main_loop E K L fd n bst1) s1 = (Ret None, s')"
    by (auto simp: run_andthen split: if_splits prod.splits cres.splits option.splits)
  have "main_reach E K L fd bst s bst1 s1"
    by (rule main_reach.round [OF main_reach.entered _ z r]) simp
  with Suc.IH [OF l] show ?case using main_reach_trans by blast
qed

lemma main_reach_running:
  assumes "disciplined K L I" and "main_reach E K L fd bst0 s0 bst s" and "running E exact K L I fd bst0 s0"
  shows "running E exact K L I fd bst s"
  using assms(2)
proof (induction rule: main_reach.induct)
  case entered
  show ?case by (rule assms(3))
next
  case (round bst s r s1 bst' s2)
  from tripleD [OF signal_running round(5,2)] have "running E exact K L I fd bst s1" .
  from tripleD [OF main_round_running [OF assms(1)] this round(4)] show ?case by auto
qed

lemma running_facts:
  assumes "running E exact K L I fd bst s"
  obtains C r where "host E exact K {fd} (r, action s, timestamp_last bst, True) C s" and "I C (adapter s)"
  using assms by (auto simp: running_def dest!: resting_serving simp: serving_def)

lemma wait_list_table:
  assumes "table_ok (MOBILE_MAX_CONNECTIONS K) {fd} L xs"
  shows "set (wait_list K fd xs) = insert fd (slots xs)" and "distinct (wait_list K fd xs)"
proof -
  have n: "take (MOBILE_MAX_CONNECTIONS K) xs = xs" using assms by (simp add: table_ok_def)
  show "set (wait_list K fd xs) = insert fd (slots xs)"
    by (auto simp: wait_list_def n slots_def open_conns_def in_set_conv_nth)
  have "filter (\<lambda>fd. fd \<noteq> INVALID_SOCKET) xs = filter (\<lambda>fd. fd \<noteq> INVALID_SOCKET) (map ((!) xs) [0..<length xs])"
    by (simp only: map_nth)
  also have "\<dots> = map ((!) xs) (filter (\<lambda>i. xs ! i \<noteq> INVALID_SOCKET) [0..<length xs])"
    by (simp only: filter_map comp_def)
  finally have "filter (\<lambda>fd. fd \<noteq> INVALID_SOCKET) xs = map ((!) xs) (filter (\<lambda>i. xs ! i \<noteq> INVALID_SOCKET) [0..<length xs])" .
  moreover have "set (filter (\<lambda>i. xs ! i \<noteq> INVALID_SOCKET) [0..<length xs]) = open_conns xs" by (auto simp: open_conns_def)
  ultimately have "distinct (filter (\<lambda>fd. fd \<noteq> INVALID_SOCKET) xs)"
    using assms by (simp only: distinct_map distinct_filter distinct_upt table_ok_def simp_thms)
  moreover have "fd \<notin> slots xs" using assms by (auto simp: table_ok_def)
  ultimately show "distinct (wait_list K fd xs)"
    by (auto simp: wait_list_def n slots_def open_conns_def in_set_conv_nth)
qed

text \<open>C4.
  In every state that the main loop reaches, however long it runs, under a library that
  keeps to the protocol: the host's clock shows the time stamp of the link; exactly the
  connections that the library holds have a socket; the descriptors waited for at the end
  of a round are open, and none is listed twice; and no call has ever named a closed
  descriptor. When the flags of open descriptors can be read and written (\<open>fcntl_ok\<close>), the
  descriptors waited for are all that are open.
\<close>

theorem main_loop_invariant:
  assumes "disciplined K L I" and "running E (fcntl_ok E) K L I fd bst0 s0" and "main_reach E K L fd bst0 s0 bst s"
  shows "bgb_clock s = timestamp_last bst \<and> I (open_conns (sockets s)) (adapter s) \<and>
    set (wait_list K fd (sockets s)) \<subseteq> live (trace s) \<and> distinct (wait_list K fd (sockets s)) \<and> trace_ok (trace s) \<and>
    (fcntl_ok E \<longrightarrow> live (trace s) = set (wait_list K fd (sockets s)))"
proof -
  from running_facts [OF main_reach_running [OF assms(1,3,2)]] obtain C r where
    h: "host E (fcntl_ok E) K {fd} (r, action s, timestamp_last bst, True) C s" "I C (adapter s)" by blast
  then obtain L xs where t: "fds L xs (sock_os.more s) s" "table_ok (MOBILE_MAX_CONNECTIONS K) {fd} L xs" "open_conns xs = C"
    "fcntl_ok E \<longrightarrow> L = {fd} \<union> slots xs"
    by (auto simp: host_def table_def)
  have "set (wait_list K fd xs) \<subseteq> L"
    using t(2) wait_list_table(1) [OF t(2)] by (auto simp: table_ok_def)
  with h t wait_list_table [OF t(2)] show ?thesis
    by (auto simp: host_def flags_def fds_def)
qed

text \<open>One round of the loop, in which the emulator's clock moves on.\<close>

theorem main_loop_invariant_witness:
  "\<exists>bst s. main_reach session_lab consts_lab lib_lab 3 (link_running session_lab) running_lab bst s \<and>
     flag_count (trace s) = 1 \<and> bgb_clock s = timestamp_last bst \<and> live (trace s) = set (wait_list consts_lab 3 (sockets s))"
proof -
  let ?m = "main_round session_lab consts_lab lib_lab 3 (link_running session_lab)"
  let ?s1 = "logged session_lab Sys_signal_flag running_lab"
  have "case result ?m ?s1 of Ret (Some _) \<Rightarrow> flag_count (trace (exec ?m ?s1)) = 1 | _ \<Rightarrow> False" by code_simp
  then obtain bst s2 where run: "run_state ?m ?s1 = (Ret (Some bst), s2)" and n: "flag_count (trace s2) = 1"
    by (auto simp: run_state_pair split: cres.splits option.splits)
  have "ret (reply session_lab (trace running_lab) Sys_signal_flag) = 0" by code_simp
  from main_reach.round [OF main_reach.entered run_sys this run]
  have r: "main_reach session_lab consts_lab lib_lab 3 (link_running session_lab) running_lab bst s2" .
  have "running session_lab (fcntl_ok session_lab) consts_lab lib_lab (\<lambda>C l. C = {}) 3 (link_running session_lab) running_lab"
    using running_running_lab [OF session_ok(1,2)] session_ok(2) by simp
  from main_loop_invariant [OF disciplined_lab this r] r n session_ok(2) show ?thesis by blast
qed

end
