(* ===== verification/Spec2Isabelle.thy ===== *)
theory Spec2Isabelle
  imports Socket_Contract Bgb_Link Mobile_Host Options Main_Program
begin

text \<open>
  \<^bold>\<open>libmobile-bgb\<close>

  The program connects the Game Boy emulator BGB to libmobile, an implementation of the
  Mobile Adapter GB. This development models its C sources, \<open>src/source/\<close>, in the POSIX build
  and proves them correct against what the parts promise each other.

  \<^bold>\<open>The parts of the program and their theories.\<close>

  \<^item> \<open>Mobile_Prelude\<close>: words, C strings, the result type \<open>cres\<close> (\<open>Ret\<close>, or \<open>Abort\<close> for a failed
    assertion or undefined behaviour), stateful code on the library's state monad, and
    the two calculi used everywhere: \<open>triple P m Q\<close> (total correctness; runs of the
    state monad end) and \<open>keeps P m\<close> (invariants). The locale \<open>wire_format\<close> is the interface
    of an encoding.
  \<^item> \<open>Os_Env\<close>: the operating system. What a call answers is a parameter, a
    function \<open>reply\<close> of the history of calls; every theorem holds for all of them, up to
    named hypotheses, which state what POSIX documents: \<open>fresh_fds\<close> (a new descriptor is not one that
    is open), \<open>fcntl_ok\<close> (the flags of an open descriptor can be read and written, as \<open>EBADF\<close> is the
    only error listed) and \<open>io_bounds\<close> (no more bytes are transferred than asked for). The
    history determines the open descriptors (\<open>live\<close>), \<open>trace_ok\<close> says that no call
    named a descriptor that was not open, and \<open>killed\<close> is the point at which \<open>SIGPIPE\<close>, whose default action the
    program keeps, ends the process.
  \<^item> \<open>Socket\<close>, for \<open>socket.c\<close> and \<open>socket.h\<close>: every function. \<open>observer F m\<close> is the calculus for code
    that opens and closes nothing and uses the descriptors \<open>F\<close> only.
  \<^item> \<open>Socket_Impl\<close>, for \<open>socket_impl.c\<close>: the connection table; the array \<open>sockets\<close> extends the
    program's memory. The locale \<open>conn_table\<close> is the interface that the callbacks of libmobile rely on, seen through
    the set of connections in use, and \<open>sockets_table\<close> interprets it on the code's
    model; \<open>table\<close> is the invariant behind it.
  \<^item> \<open>Socket_Contract\<close>: what the operations of the table return and do, call by call, and the round
    trip of addresses (\<open>addr_format\<close> interprets \<open>wire_format\<close>).
  \<^item> \<open>Bgb_Link\<close>, for \<open>bgblink.c\<close> and \<open>bgblink.h\<close>: packets (\<open>packet_format\<close> interprets
    \<open>wire_format\<close>), handshake and loop. The abstract specification is \<open>serial_port\<close>, a transition
    relation: a port that answers each byte with the byte prepared before, for a device given by its two callbacks. That
    the loop refines it is shown for all callbacks that leave the link alone.
  \<^item> \<open>Mobile_User\<close>, for \<open>main.c\<close> lines 17 to 154 and 174 to 236: \<open>struct mobile_user\<close> as a record
    that extends the table's, the callbacks of libmobile, and the clock. The locale \<open>clock_callback\<close> is what the
    link expects of a time-stamp callback; both callbacks of the program interpret it.
  \<^item> \<open>Mobile_Host\<close>, for the calls between the program and libmobile, and \<open>mobile_handle_loop\<close>: a library function
    is a tree of callbacks (\<open>prog\<close>), run by \<open>run_prog\<close>; \<open>obeys\<close> is the protocol of the callbacks. The locale \<open>callback_host\<close> is
    a host that serves the protocol, and \<open>bgb_host\<close> interprets it on the registered callbacks. The
    locale \<open>history\<close> is what holds of every library, disciplined or not: the callbacks never send or receive on the link. Its
    interpretations give \<open>bgb_link_is_serial_port\<close>, the refinement for the program's own callbacks, and
    that the signal flag is read again and again.
  \<^item> \<open>Options\<close>, for \<open>main.c\<close> lines 238 to 432: the command line.
  \<^item> \<open>Main_Loop\<close>, for \<open>main.c\<close> lines 434 to 586: the rest of \<open>main\<close>, and the invariants \<open>starting\<close> and
    \<open>running\<close> of its two loops.
  \<^item> \<open>Main_Ends\<close>: when the two loops end, and when they do not. \<open>speaks\<close> and \<open>interrupted\<close> are what the
    environment has to do for that: one of the first polls of the emulator finds something, and the signal arrives.
  \<^item> \<open>Main_Program\<close>: the properties of the program as a whole; \<open>process\<close> is \<open>main\<close> up to its return or its death by \<open>SIGPIPE\<close>.

  \<^bold>\<open>What is shown.\<close>

  \<^item> Safety from the first instruction to the exit status (\<open>main_safe\<close>): under every library that keeps to the
    protocol, no assertion fails, nothing is undefined, no closed descriptor is used, and
    after success, given \<open>fcntl_ok\<close>, every descriptor is closed.
  \<^item> Termination (\<open>main_terminates\<close>): under such a library, an emulator that speaks and a signal that arrives are
    enough for the program to return an exit status, if \<open>SIGPIPE\<close> does not kill it before.
  \<^item> The invariant of the main loop, by rule induction over the states it reaches
    (\<open>main_loop_invariant\<close>), and that the signal ends it (\<open>signal_ends_program\<close>).
  \<^item> Each operation of the connection table on every branch: descriptors are stored, exchanged and
    closed, results lie within their bounds, addresses are bound as asked for.
  \<^item> The link is the serial port of its specification; the layout of its packets, its handshake and its clock in every case.
  \<^item> Timers in floating point equal exact integer arithmetic; the adapter is reset exactly on jumps of the clock.
  \<^item> Round trips: addresses, configuration, hexadecimal tokens.
  \<^item> Where the code does something it does not mean to do, a theorem says what: the
    descriptor that \<open>socket_impl_accept\<close> loses, the null pointer on an error path of
    \<open>socket_impl_connect\<close>, the error number that \<open>socket_connect\<close> overwrites, the empty
    DNS port, the wait that ignores the signal, the clock that starts at 0, the adapter that could not be
    allocated, and the timers that never fire.

  \<^bold>\<open>Bounds and fuel.\<close>  Loops over arrays, lists of addresses and arguments are
  recursions that end. The wait for the clock and the main loop may run for ever: they take the
  number of rounds and return \<open>None\<close> when it is used up. The safety theorems hold for every number; that
  both return is shown with explicit numbers (\<open>signal_ends_program\<close>, \<open>main_terminates\<close>), and that
  the wait does not return when the emulator is silent is shown too (\<open>wait_clock_ignores_signal\<close>). Library functions are finite trees:
  each call into libmobile is taken to return after finitely many callbacks.

  \<^bold>\<open>Parameters.\<close>  The system calls and the file system; libmobile's constants (\<open>mobile_consts\<close>), functions
  (\<open>mobile_lib\<close>) and \<open>mobile_inet_pton\<close>, whose sources are a git submodule that is not here. The hypotheses on libmobile are
  \<open>disciplined\<close>, \<open>consts_ok\<close> (numbers short enough for the title, no
  action is 0) and that a zero address has no type. \<open>disciplined\<close> is the protocol of the callbacks as the host requires it
  (\<open>allowed\<close>): numbers of connections and timers within the arrays, connections opened when free and used when open, addresses of a known
  kind, numbers in ASCII, and that \<open>mobile_new\<close> has returned an adapter. One clause is not the library's promise but a limit of
  the host: tests of a timer stay below 2048000 ms, where the conversion of \<open>impl_time_check_ms\<close> becomes
  undefined. Witnesses instantiate all of them by concrete values.

  \<^bold>\<open>Not modelled.\<close>  The code for Windows and the variant with \<open>select\<close> (conditional compilation); the link to the VBA
  emulator (compiled out); the signal handler's timing (the environment answers each reading of the flag);
  death by signals other than \<open>SIGPIPE\<close> (the history of such a run is a prefix of a modelled one, and \<open>trace_ok\<close> holds of prefixes);
  \<open>setlocale\<close>, \<open>free\<close> and \<open>fclose\<close>, which have no effect on the state that is modelled; the buffering of streams; the test client and the build files.
  Byte order is little-endian, \<open>int\<close> has 32 bits and \<open>long\<close> has 64.
\<close>

end
